theory Spec2Isabelle
  imports Main "HOL-Library.Char_ord" "HOL-Library.List_Lexorder" "HOL-Library.Multiset"
begin

section \<open>kineticsTools: summarizeModifications\<close>

text \<open>
  A shallow embedding of \<^verbatim>\<open>kineticsTools/summarizeModifications.py\<close>, class
  \<^verbatim>\<open>ModificationSummary\<close>. Python strings are \<open>string\<close> (a character is a code point
  below 256), Python integers are \<open>int\<close>, the length of a list is a \<open>nat\<close>. A raised
  exception is a value of \<open>error\<close>.
\<close>

datatype error = IndexError | ValueError | KeyError

subsection \<open>The string operations of Python that the module uses\<close>

text \<open>\<^verbatim>\<open>str.isspace\<close> on one character, for the code points below 256.\<close>

definition isspace :: "char \<Rightarrow> bool" where
  "isspace c = (c \<in> {CHR 0x09, CHR 0x0A, CHR 0x0B, CHR 0x0C, CHR 0x0D,
                      CHR 0x1C, CHR 0x1D, CHR 0x1E, CHR 0x1F, CHR 0x20, CHR 0x85, CHR 0xA0})"

text \<open>\<^verbatim>\<open>s.strip()\<close>: white space removed at both ends.\<close>

definition strip :: "string \<Rightarrow> string" where
  "strip s = dropWhile isspace (rev (dropWhile isspace (rev s)))"

text \<open>\<^verbatim>\<open>s.replace(c, new)\<close> for a one-character \<open>c\<close>.\<close>

definition replace :: "char \<Rightarrow> string \<Rightarrow> string \<Rightarrow> string" where
  "replace c new s = concat (map (\<lambda>x. if x = c then new else [x]) s)"

text \<open>\<^verbatim>\<open>s.split(c)\<close> for a one-character separator: one field more than separators.\<close>

fun split_str :: "char \<Rightarrow> string \<Rightarrow> string list" where
  "split_str c [] = [[]]"
| "split_str c (x # xs) =
     (if x = c then [] # split_str c xs
      else (case split_str c xs of [] \<Rightarrow> [[x]] | w # ws \<Rightarrow> (x # w) # ws))"

text \<open>\<^verbatim>\<open>sep.join(xs)\<close>.\<close>

fun join :: "string \<Rightarrow> string list \<Rightarrow> string" where
  "join sep [] = []"
| "join sep [x] = x"
| "join sep (x # y # ys) = x @ sep @ join sep (y # ys)"

text \<open>\<^verbatim>\<open>s.partition(c)\<close> for a one-character separator.\<close>

definition partition_str :: "char \<Rightarrow> string \<Rightarrow> string \<times> string \<times> string" where
  "partition_str c s =
     (if c \<in> set s then (takeWhile (\<lambda>x. x \<noteq> c) s, [c], tl (dropWhile (\<lambda>x. x \<noteq> c) s))
      else (s, [], []))"

text \<open>\<^verbatim>\<open>str(n)\<close> for a non-negative integer: its decimal digits.\<close>

fun str_nat :: "nat \<Rightarrow> string" where
  "str_nat n =
     (if n < 10 then [''0123456789'' ! n]
      else str_nat (n div 10) @ [''0123456789'' ! (n mod 10)])"

declare str_nat.simps [simp del]

text \<open>
  \<^verbatim>\<open>itertools.groupby(xs, key)\<close>, each group made a list: the maximal runs of consecutive
  elements with the same key, in order.
\<close>

function groupby :: "('a \<Rightarrow> 'k) \<Rightarrow> 'a list \<Rightarrow> ('k \<times> 'a list) list" where
  "groupby f [] = []"
| "groupby f (x # xs) =
     (f x, x # takeWhile (\<lambda>y. f y = f x) xs) # groupby f (dropWhile (\<lambda>y. f y = f x) xs)"
  by pat_completeness auto
termination
  by (relation "measure (\<lambda>(f, xs). length xs)") (auto simp: less_Suc_eq_le length_dropWhile_le)

text \<open>\<^verbatim>\<open>dict(pairs)\<close>: the pairs are stored from left to right.\<close>

definition dict :: "('k \<times> 'v) list \<Rightarrow> ('k \<rightharpoonup> 'v)" where
  "dict kvs = foldl (\<lambda>m (k, v). m(k \<mapsto> v)) Map.empty kvs"

subsection \<open>Records\<close>

text \<open>
  A modification hit is the dictionary with the keys \<^verbatim>\<open>pos\<close>, \<^verbatim>\<open>strand\<close>, \<^verbatim>\<open>seqid\<close> and
  \<^verbatim>\<open>type\<close> that \<^verbatim>\<open>_mainLoop\<close> builds for each record of the modification file.
\<close>

record hit =
  pos :: int
  strand :: string
  seqid :: string
  type :: string

text \<open>
  A \<^verbatim>\<open>Gff3Record\<close> of pbcore: the nine columns of a feature line, the last one an ordered
  dictionary of attributes. Assigning an attribute that is not a column
  (\<^verbatim>\<open>rec.modsfwd = v\<close>) stores it in that dictionary: \<open>setattr\<close>.
\<close>

record gff3 =
  rec_seqid :: string
  rec_source :: string
  rec_type :: string
  rec_start :: int
  rec_end :: int
  rec_score :: string
  rec_strand :: string
  rec_phase :: string
  attributes :: "(string \<times> string) list"

fun setitem :: "(string \<times> string) list \<Rightarrow> string \<Rightarrow> string \<Rightarrow> (string \<times> string) list" where
  "setitem [] k v = [(k, v)]"
| "setitem ((k', v') # kvs) k v =
     (if k' = k then (k, v) # kvs else (k', v') # setitem kvs k v)"

definition setattr :: "gff3 \<Rightarrow> string \<Rightarrow> string \<Rightarrow> gff3" where
  "setattr r name v = r\<lparr>attributes := setitem (attributes r) name v\<rparr>"

definition getattr :: "gff3 \<Rightarrow> string \<Rightarrow> string option" where
  "getattr r name = map_of (attributes r) name"

subsection \<open>\<^verbatim>\<open>ModificationSummary\<close>\<close>

text \<open>\<^verbatim>\<open>self.knownModificationEvents\<close>, as \<^verbatim>\<open>run\<close> sets it before calling \<^verbatim>\<open>_mainLoop\<close>.\<close>

definition knownModificationEvents :: "string list" where
  "knownModificationEvents = [''modified_base'', ''m6A'', ''m4C'', ''m5C'']"

text \<open>
  \<^verbatim>\<open>countModificationTypes\<close>: sort by type (\<^verbatim>\<open>sorted\<close> is stable, as \<open>sort_key\<close> is), group
  the runs of equal type, and store the size of each group over a dictionary that starts
  with a zero for every known type.
\<close>

definition countModificationTypes :: "hit list \<Rightarrow> (string \<rightharpoonup> nat)" where
  "countModificationTypes mods =
     (let mods' = sort_key type mods;
          counts = dict (map (\<lambda>x. (x, 0)) knownModificationEvents)
      in foldl (\<lambda>counts (k, g). counts(k \<mapsto> length g)) counts (groupby type mods'))"

text \<open>
  \<^verbatim>\<open>[str(c[x]) for x in self.knownModificationEvents]\<close>: reading a key that the dictionary
  lacks raises \<^verbatim>\<open>KeyError\<close>.
\<close>

fun count_strs :: "(string \<rightharpoonup> nat) \<Rightarrow> string list \<Rightarrow> error + string list" where
  "count_strs c [] = Inr []"
| "count_strs c (x # xs) =
     (case c x of None \<Rightarrow> Inl KeyError
      | Some n \<Rightarrow> (case count_strs c xs of Inl e \<Rightarrow> Inl e | Inr ss \<Rightarrow> Inr (str_nat n # ss)))"

definition headerString :: string where
  "headerString = join '','' (map (\<lambda>x. [CHR 0x22] @ x @ [CHR 0x22]) knownModificationEvents)"

text \<open>The headers to inject; \<open>argv\<close> is \<^verbatim>\<open>sys.argv\<close>.\<close>

definition headers :: "string list \<Rightarrow> (string \<times> string) list" where
  "headers argv =
     [(''source'', ''kineticModificationCaller 1.3.3''),
      (''source-commandline'', join '' '' argv),
      (''attribute-description'',
       ''modsfwd - count of detected DNA modifications on forward strand by modification event type''),
      (''attribute-description'',
       ''modsrev - count of detected DNA modifications on reverse strand by modification event type''),
      (''region-modsfwd'', headerString),
      (''region-modsfwd'', headerString)]"

text \<open>\<^verbatim>\<open>"##%s %s" % field\<close>.\<close>

definition format_header :: "string \<times> string \<Rightarrow> string" where
  "format_header field = ''##'' @ fst field @ '' '' @ snd field"

text \<open>
  The modification calls: \<open>modReader\<close> is the list of records that pbcore's \<^verbatim>\<open>GffReader\<close>
  yields for the modification file, and \<open>hit_of x\<close> is the dictionary built from the
  record \<open>x\<close>.
\<close>

definition hit_of :: "gff3 \<Rightarrow> hit" where
  "hit_of x = \<lparr>pos = rec_start x, strand = rec_strand x, seqid = rec_seqid x, type = rec_type x\<rparr>"

definition hits :: "gff3 list \<Rightarrow> hit list" where
  "hits modReader =
     map hit_of (filter (\<lambda>x. rec_type x \<in> set knownModificationEvents) modReader)"

definition intervalHits :: "hit list \<Rightarrow> gff3 \<Rightarrow> hit list" where
  "intervalHits hs r =
     filter (\<lambda>h. rec_start r \<le> pos h \<and> pos h \<le> rec_end r \<and> rec_seqid r = seqid h) hs"

text \<open>The body of \<^verbatim>\<open>if rec.type == 'region'\<close> up to the two assignments.\<close>

definition annotate :: "hit list \<Rightarrow> gff3 \<Rightarrow> error + gff3" where
  "annotate hs r =
     (let ih = intervalHits hs r;
          cFwd = countModificationTypes (filter (\<lambda>h. strand h = ''+'') ih);
          cRev = countModificationTypes (filter (\<lambda>h. strand h = ''-'') ih)
      in case count_strs cFwd knownModificationEvents of
           Inl e \<Rightarrow> Inl e
         | Inr fs \<Rightarrow>
             (case count_strs cRev knownModificationEvents of
                Inl e \<Rightarrow> Inl e
              | Inr rs \<Rightarrow>
                  Inr (setattr (setattr r ''modsfwd'' (join '','' fs)) ''modsrev'' (join '','' rs))))"

text \<open>
  The state of the loop: the sequence map, the flag, and the arguments of the
  \<^verbatim>\<open>print\<close> calls on the output file so far (each one is a line of the file).
\<close>

record state =
  seqMap :: "string \<rightharpoonup> string"
  inHeader :: bool
  summaryWriter :: "string list"

text \<open>
  \<^verbatim>\<open>if inHeader: ...\<close>: at the end of the header the tool's own headers are written
  and the flag is cleared.
\<close>

definition write_headers :: "string list \<Rightarrow> state \<Rightarrow> state" where
  "write_headers argv st =
     (if inHeader st
      then st\<lparr>summaryWriter := summaryWriter st @ map format_header (headers argv),
              inHeader := False\<rparr>
      else st)"

text \<open>
  One turn of \<^verbatim>\<open>for line in summaryFile\<close>. The two functions of pbcore are parameters:
  \<open>fromString\<close> is \<^verbatim>\<open>Gff3Record.fromString\<close> (\<open>None\<close> when it raises \<^verbatim>\<open>ValueError\<close>) and
  \<open>str\<close> is \<^verbatim>\<open>Gff3Record.__str__\<close>. The result is the state reached and the exception
  raised, if any.
\<close>

definition body ::
  "(string \<Rightarrow> gff3 option) \<Rightarrow> (gff3 \<Rightarrow> string) \<Rightarrow> string list \<Rightarrow> hit list \<Rightarrow>
   state \<Rightarrow> string \<Rightarrow> state \<times> error option" where
  "body fromString str argv hs st line =
     (case line of
        [] \<Rightarrow> (st, Some IndexError)
      | c # _ \<Rightarrow>
          if c = CHR ''#'' then
            (case split_str CHR '' '' (replace CHR ''#'' [] line) of
               [] \<Rightarrow> (st, Some IndexError)
             | field # rest \<Rightarrow>
                 let value = join '' '' rest;
                     st1 = (if field = ''sequence-header''
                            then (case partition_str CHR '' '' (strip value) of
                                    (internalTag, delim, externalTag) \<Rightarrow>
                                      st\<lparr>seqMap := (seqMap st)(internalTag \<mapsto> externalTag)\<rparr>)
                            else st)
                 in (st1\<lparr>summaryWriter := summaryWriter st1 @ [strip line]\<rparr>, None))
          else
            let st1 = write_headers argv st
            in (case fromString line of
                  None \<Rightarrow> (st1, Some ValueError)
                | Some r \<Rightarrow>
                    if rec_type r = ''region'' then
                      (case annotate hs r of
                         Inl e \<Rightarrow> (st1, Some e)
                       | Inr r' \<Rightarrow> (st1\<lparr>summaryWriter := summaryWriter st1 @ [str r']\<rparr>, None))
                    else (st1, None)))"

fun loop ::
  "(string \<Rightarrow> gff3 option) \<Rightarrow> (gff3 \<Rightarrow> string) \<Rightarrow> string list \<Rightarrow> hit list \<Rightarrow>
   state \<Rightarrow> string list \<Rightarrow> state \<times> error option" where
  "loop fromString str argv hs st [] = (st, None)"
| "loop fromString str argv hs st (line # ls) =
     (case body fromString str argv hs st line of
        (st', Some e) \<Rightarrow> (st', Some e)
      | (st', None) \<Rightarrow> loop fromString str argv hs st' ls)"

text \<open>
  \<^verbatim>\<open>_mainLoop\<close>: \<open>summaryFile\<close> is the list of lines that iterating over the alignment
  summary yields (each with its line end; a file never yields the empty string, for which
  \<^verbatim>\<open>line[0]\<close> would raise \<^verbatim>\<open>IndexError\<close>). The second component is \<open>None\<close> when the
  method returns (with 0). The dictionary \<^verbatim>\<open>hitsByEvent\<close> is never read and is left out.
\<close>

definition mainLoop ::
  "(string \<Rightarrow> gff3 option) \<Rightarrow> (gff3 \<Rightarrow> string) \<Rightarrow> string list \<Rightarrow> gff3 list \<Rightarrow>
   string list \<Rightarrow> state \<times> error option" where
  "mainLoop fromString str argv modReader summaryFile =
     loop fromString str argv (hits modReader)
       \<lparr>seqMap = Map.empty, inHeader = True, summaryWriter = []\<rparr> summaryFile"

subsection \<open>The counts expected for a region\<close>

text \<open>
  In the words of the specification: a hit overlaps a region when it lies on the region's
  sequence and its position is in the closed interval from the region's start to its end;
  \<open>strand_count hs r s t\<close> is the number of the hits \<open>hs\<close> that overlap \<open>r\<close> and have the
  strand symbol \<open>s\<close> and the type \<open>t\<close>.
\<close>

definition overlaps :: "gff3 \<Rightarrow> hit \<Rightarrow> bool" where
  "overlaps r h = (seqid h = rec_seqid r \<and> rec_start r \<le> pos h \<and> pos h \<le> rec_end r)"

definition strand_count :: "hit list \<Rightarrow> gff3 \<Rightarrow> string \<Rightarrow> string \<Rightarrow> nat" where
  "strand_count hs r s t = length (filter (\<lambda>h. overlaps r h \<and> strand h = s \<and> type h = t) hs)"

text \<open>
  The tokens expected in a count attribute: the decimal count for each of the four known
  types, in the fixed order; and the number that a token of decimal digits denotes.
\<close>

definition count_tokens :: "hit list \<Rightarrow> gff3 \<Rightarrow> string \<Rightarrow> string list" where
  "count_tokens hs r s =
     map (\<lambda>t. str_nat (strand_count hs r s t)) [''modified_base'', ''m6A'', ''m4C'', ''m5C'']"

definition nat_of_str :: "string \<Rightarrow> nat" where
  "nat_of_str s = foldl (\<lambda>a c. 10 * a + (of_char c - 48)) 0 s"

subsection \<open>The output expected once the header has ended\<close>

text \<open>
  The lines expected from the first feature line on, stated without the flag: a metadata
  line gives its trimmed form, a line that parses to a record of type \<^verbatim>\<open>region\<close> gives the
  annotated record, a line that parses to a record of another type gives nothing, and the
  pass stops at a line that fails. Nothing in this definition writes a header.
\<close>

fun lines_after_header ::
  "(string \<Rightarrow> gff3 option) \<Rightarrow> (gff3 \<Rightarrow> string) \<Rightarrow> hit list \<Rightarrow> string list \<Rightarrow> string list" where
  "lines_after_header fromString str hs [] = []"
| "lines_after_header fromString str hs ([] # ls) = []"
| "lines_after_header fromString str hs ((c # cs) # ls) =
     (if c = CHR ''#'' then strip (c # cs) # lines_after_header fromString str hs ls
      else (case fromString (c # cs) of
              None \<Rightarrow> []
            | Some r \<Rightarrow>
                if rec_type r = ''region'' then
                  (case annotate hs r of
                     Inl e \<Rightarrow> []
                   | Inr r' \<Rightarrow> str r' # lines_after_header fromString str hs ls)
                else lines_after_header fromString str hs ls))"

subsection \<open>Example data\<close>

text \<open>
  Records of a modification file (one \<^verbatim>\<open>m6A\<close> call at position 100 of \<^verbatim>\<open>chr1\<close> on the
  forward strand, one record of a type the tool does not know, one call on another
  sequence), two hits (one at the start of the region below, one with a strand symbol that
  is neither \<^verbatim>\<open>+\<close> nor \<^verbatim>\<open>-\<close>), and the lines of an
  alignment summary: two metadata lines, a \<^verbatim>\<open>region\<close> line for \<^verbatim>\<open>chr1\<close> from 50 to 150,
  a line of another feature type, and a line that is no feature line.
\<close>

definition tab :: string where
  "tab = [CHR 0x09]"

definition nl :: string where
  "nl = [CHR 0x0A]"

definition m6A_record :: gff3 where
  "m6A_record = \<lparr>rec_seqid = ''chr1'', rec_source = ''kinModCall'', rec_type = ''m6A'',
     rec_start = 100, rec_end = 100, rec_score = ''35'', rec_strand = ''+'', rec_phase = ''.'',
     attributes = [(''coverage'', ''40'')]\<rparr>"

definition unknown_record :: gff3 where
  "unknown_record = \<lparr>rec_seqid = ''chr1'', rec_source = ''kinModCall'', rec_type = ''m5hmC'',
     rec_start = 120, rec_end = 120, rec_score = ''31'', rec_strand = ''-'', rec_phase = ''.'',
     attributes = [(''coverage'', ''38'')]\<rparr>"

definition other_sequence_record :: gff3 where
  "other_sequence_record = \<lparr>rec_seqid = ''chr2'', rec_source = ''kinModCall'', rec_type = ''m4C'',
     rec_start = 70, rec_end = 70, rec_score = ''33'', rec_strand = ''-'', rec_phase = ''.'',
     attributes = [(''coverage'', ''41'')]\<rparr>"

definition boundary_hit :: hit where
  "boundary_hit = \<lparr>pos = 50, strand = ''-'', seqid = ''chr1'', type = ''m4C''\<rparr>"

definition unstranded_hit :: hit where
  "unstranded_hit = \<lparr>pos = 80, strand = ''.'', seqid = ''chr1'', type = ''m5C''\<rparr>"

definition region_record :: gff3 where
  "region_record = \<lparr>rec_seqid = ''chr1'', rec_source = ''.'', rec_type = ''region'',
     rec_start = 50, rec_end = 150, rec_score = ''0.00'', rec_strand = ''+'', rec_phase = ''.'',
     attributes = [(''cov'', ''3,5,9'')]\<rparr>"

definition gene_record :: gff3 where
  "gene_record = \<lparr>rec_seqid = ''chr1'', rec_source = ''.'', rec_type = ''gene'',
     rec_start = 60, rec_end = 90, rec_score = ''.'', rec_strand = ''+'', rec_phase = ''.'',
     attributes = [(''ID'', ''g1'')]\<rparr>"

definition version_line :: string where
  "version_line = ''##gff-version 3'' @ nl"

definition sequence_header_line :: string where
  "sequence_header_line = ''##sequence-header ref000001 chr1'' @ nl"

definition region_line :: string where
  "region_line =
     join tab [''chr1'', ''.'', ''region'', ''50'', ''150'', ''0.00'', ''+'', ''.'', ''cov=3,5,9''] @ nl"

definition gene_line :: string where
  "gene_line = join tab [''chr1'', ''.'', ''gene'', ''60'', ''90'', ''.'', ''+'', ''.'', ''ID=g1''] @ nl"

definition malformed_line :: string where
  "malformed_line = ''chr1 region 50 150'' @ nl"

text \<open>
  A reader and a writer for the examples: the reader knows the two feature lines above and
  rejects every other line; the writer joins the columns with tabs, the attributes as
  \<^verbatim>\<open>key=value\<close> joined with semicolons.
\<close>

definition example_fromString :: "string \<Rightarrow> gff3 option" where
  "example_fromString line =
     (if line = region_line then Some region_record
      else if line = gene_line then Some gene_record
      else None)"

definition str_int :: "int \<Rightarrow> string" where
  "str_int i = (if i < 0 then ''-'' @ str_nat (nat (- i)) else str_nat (nat i))"

definition example_str :: "gff3 \<Rightarrow> string" where
  "example_str r =
     join tab [rec_seqid r, rec_source r, rec_type r, str_int (rec_start r), str_int (rec_end r),
               rec_score r, rec_strand r, rec_phase r,
               join '';'' (map (\<lambda>kv. fst kv @ ''='' @ snd kv) (attributes r))]"

section \<open>The count aggregator\<close>

text \<open>
  After the sort the hits of one type are adjacent, so \<open>groupby\<close> yields one group for
  each type that occurs, holding all the hits of that type.
\<close>

lemma dropWhile_key_fresh:
  assumes "sorted (map f (x # xs))"
  shows "f x \<notin> f ` set (dropWhile (\<lambda>y. f y = f x) xs)"
proof
  assume "f x \<in> f ` set (dropWhile (\<lambda>y. f y = f x) xs)"
  then obtain z where z: "z \<in> set (dropWhile (\<lambda>y. f y = f x) xs)" "f z = f x" by auto
  from z(1) have ne: "dropWhile (\<lambda>y. f y = f x) xs \<noteq> []" by (metis empty_iff empty_set)
  define d where "d = dropWhile (\<lambda>y. f y = f x) xs"
  from ne have hd: "f (hd d) \<noteq> f x" unfolding d_def using hd_dropWhile by blast
  have le: "\<forall>y\<in>set xs. f x \<le> f y" and sx: "sorted (map f xs)"
    using assms by auto
  have "sorted (map f d)"
    unfolding d_def using sx by (metis sorted_append map_append takeWhile_dropWhile_id)
  moreover have "\<forall>y\<in>set d. f x \<le> f y"
    unfolding d_def using le by (meson set_dropWhileD)
  ultimately have sd: "sorted (map f (x # d))" by simp
  from ne obtain a as where das: "d = a # as" by (cases d) (auto simp: d_def)
  with hd have "f a \<noteq> f x" by simp
  moreover from sd das have "f x \<le> f a" "\<forall>y\<in>set as. f a \<le> f y" by auto
  ultimately have "\<forall>y\<in>set d. f x < f y" using das by auto
  with z show False by (auto simp: d_def)
qed

lemma filter_key_takeWhile:
  assumes "sorted (map f (x # xs))"
  shows "filter (\<lambda>y. f y = f x) xs = takeWhile (\<lambda>y. f y = f x) xs"
proof -
  let ?P = "\<lambda>y. f y = f x"
  have "filter ?P xs = filter ?P (takeWhile ?P xs) @ filter ?P (dropWhile ?P xs)"
    by (metis filter_append takeWhile_dropWhile_id)
  moreover have "filter ?P (dropWhile ?P xs) = []"
  proof -
    have "\<forall>y\<in>set (dropWhile ?P xs). f y \<noteq> f x"
      using dropWhile_key_fresh [OF assms] by (metis imageI)
    then show ?thesis by (simp only: filter_empty_conv)
  qed
  moreover have "filter ?P (takeWhile ?P xs) = takeWhile ?P xs"
    by (simp add: filter_id_conv) (meson set_takeWhileD)
  ultimately show ?thesis by simp
qed

lemma filter_other_dropWhile:
  assumes "t \<noteq> f x"
  shows "filter (\<lambda>y. f y = t) xs = filter (\<lambda>y. f y = t) (dropWhile (\<lambda>y. f y = f x) xs)"
proof -
  let ?P = "\<lambda>y. f y = f x"
  have "filter (\<lambda>y. f y = t) xs
      = filter (\<lambda>y. f y = t) (takeWhile ?P xs) @ filter (\<lambda>y. f y = t) (dropWhile ?P xs)"
    by (metis filter_append takeWhile_dropWhile_id)
  moreover have "filter (\<lambda>y. f y = t) (takeWhile ?P xs) = []"
    using assms by (auto simp: filter_empty_conv dest: set_takeWhileD)
  ultimately show ?thesis by simp
qed

lemma sorted_dropWhile_map:
  "sorted (map f xs) \<Longrightarrow> sorted (map f (dropWhile P xs))"
  by (metis sorted_append map_append takeWhile_dropWhile_id)

lemma foldl_groupby_sorted:
  "sorted (map f xs) \<Longrightarrow>
   foldl (\<lambda>counts (k, g). counts(k \<mapsto> length g)) m (groupby f xs) t =
     (if t \<in> f ` set xs then Some (length (filter (\<lambda>y. f y = t) xs)) else m t)"
proof (induction f xs arbitrary: m rule: groupby.induct)
  case (1 f)
  then show ?case by simp
next
  case (2 f x xs)
  let ?P = "\<lambda>y. f y = f x"
  let ?d = "dropWhile ?P xs"
  have sd: "sorted (map f ?d)" using "2.prems" sorted_dropWhile_map [of f xs ?P] by simp
  note IH = "2.IH" [OF sd]
  have fresh: "f x \<notin> f ` set ?d" by (rule dropWhile_key_fresh [OF "2.prems"])
  have tk: "filter ?P xs = takeWhile ?P xs" by (rule filter_key_takeWhile [OF "2.prems"])
  show ?case
  proof (cases "t = f x")
    case True
    with fresh IH tk show ?thesis by simp
  next
    case False
    have img: "t \<in> f ` set (x # xs) \<longleftrightarrow> t \<in> f ` set ?d"
    proof -
      have "set xs = set (takeWhile ?P xs) \<union> set ?d" by (metis set_append takeWhile_dropWhile_id)
      then show ?thesis using False by (auto dest: set_takeWhileD)
    qed
    have "filter (\<lambda>y. f y = t) (x # xs) = filter (\<lambda>y. f y = t) ?d"
      using False filter_other_dropWhile [of t f x xs] by auto
    with IH img False show ?thesis by (simp del: set_simps)
  qed
qed

lemma dict_known:
  "dict (map (\<lambda>x. (x, 0::nat)) knownModificationEvents) t =
     (if t \<in> set knownModificationEvents then Some 0 else None)"
  by (simp add: dict_def knownModificationEvents_def)

lemma countModificationTypes_at:
  "countModificationTypes mods t =
     (if t \<in> type ` set mods \<or> t \<in> set knownModificationEvents
      then Some (length (filter (\<lambda>h. type h = t) mods)) else None)"
proof -
  have len: "length (filter (\<lambda>h. type h = t) (sort_key type mods)) = length (filter (\<lambda>h. type h = t) mods)"
    by (metis mset_filter mset_sort size_mset)
  have "t \<notin> type ` set mods \<Longrightarrow> filter (\<lambda>h. type h = t) mods = []"
    by (auto simp: filter_empty_conv)
  then show ?thesis
    unfolding countModificationTypes_def Let_def
    by (simp add: foldl_groupby_sorted len dict_known)
qed


lemma known_set: "set knownModificationEvents = {''modified_base'', ''m6A'', ''m4C'', ''m5C''}"
  by (simp add: knownModificationEvents_def)

lemma countModificationTypes_dom:
  assumes "\<forall>h\<in>set mods. type h \<in> set knownModificationEvents"
  shows "dom (countModificationTypes mods) = set knownModificationEvents"
proof -
  from assms have "\<And>t. (t \<in> type ` set mods \<or> t \<in> set knownModificationEvents)
                 = (t \<in> set knownModificationEvents)"
    by blast
  then have "\<And>t. countModificationTypes mods t =
      (if t \<in> set knownModificationEvents then Some (length (filter (\<lambda>h. type h = t) mods)) else None)"
    by (simp only: countModificationTypes_at)
  then show ?thesis
    unfolding dom_def by (simp split: if_splits)
qed

lemma countModificationTypes_known:
  assumes "t \<in> set knownModificationEvents"
  shows "countModificationTypes mods t = Some (length (filter (\<lambda>h. type h = t) mods))"
  using assms by (simp only: countModificationTypes_at) simp

lemma filter_type_absent:
  "t \<notin> type ` set mods \<Longrightarrow> filter (\<lambda>h. type h = t) mods = []"
  by (simp only: filter_empty_conv) blast

lemma countModificationTypes_mset:
  assumes m: "mset mods' = mset mods"
  shows "countModificationTypes mods' = countModificationTypes mods"
proof
  fix t
  have "set mods' = set mods" using m by (metis set_mset_mset)
  moreover have "length (filter (\<lambda>h. type h = t) mods') = length (filter (\<lambda>h. type h = t) mods)"
    using m by (metis mset_filter size_mset)
  ultimately show "countModificationTypes mods' t = countModificationTypes mods t"
    by (simp only: countModificationTypes_at)
qed

section \<open>The modification loader\<close>



section \<open>Annotating a region\<close>

text \<open>
  No key is missing when the counts are read, and the two attributes hold the counts of the
  overlapping hits of each strand, one token for each known type.
\<close>

lemma count_strs_total:
  "\<forall>t\<in>set ts. c t = Some (n t) \<Longrightarrow> count_strs c ts = Inr (map (\<lambda>t. str_nat (n t)) ts)"
  by (induction ts) auto

lemma count_strs_countModificationTypes:
  "count_strs (countModificationTypes mods) knownModificationEvents =
     Inr (map (\<lambda>t. str_nat (length (filter (\<lambda>h. type h = t) mods))) knownModificationEvents)"
  by (rule count_strs_total) (blast intro: countModificationTypes_known)

lemma filter_strand_type:
  "filter (\<lambda>h. type h = t) (filter (\<lambda>h. strand h = s) (intervalHits hs r)) =
   filter (\<lambda>h. overlaps r h \<and> strand h = s \<and> type h = t) hs"
  unfolding intervalHits_def overlaps_def filter_filter
  by (rule filter_cong) auto

lemma annotate_Inr:
  "annotate hs r =
     Inr (setattr (setattr r ''modsfwd''
                     (join '','' (map (\<lambda>t. str_nat (strand_count hs r ''+'' t)) knownModificationEvents)))
            ''modsrev''
            (join '','' (map (\<lambda>t. str_nat (strand_count hs r ''-'' t)) knownModificationEvents)))"
  unfolding annotate_def Let_def count_strs_countModificationTypes filter_strand_type strand_count_def
  by simp

lemma map_of_setitem: "map_of (setitem kvs k v) = (map_of kvs)(k \<mapsto> v)"
  by (induction kvs k v rule: setitem.induct) auto

lemma getattr_setattr:
  "getattr (setattr r k v) k' = (if k' = k then Some v else getattr r k')"
  by (simp add: getattr_def setattr_def map_of_setitem)

section \<open>The loop\<close>

text \<open>One turn of the loop on a metadata line and on a feature line.\<close>

lemma split_str_nonempty: "split_str c s \<noteq> []"
  by (induction s) (auto split: list.splits)

lemma body_meta:
  "\<exists>m. body P S argv hs st (CHR ''#'' # cs) =
        (st\<lparr>seqMap := m, summaryWriter := summaryWriter st @ [strip (CHR ''#'' # cs)]\<rparr>, None)"
proof (cases "split_str CHR '' '' (replace CHR ''#'' [] (CHR ''#'' # cs))")
  case Nil
  then show ?thesis by (simp add: split_str_nonempty)
next
  case (Cons field rest)
  show ?thesis
  proof (cases "field = ''sequence-header''")
    case True
    obtain a b c where p: "partition_str CHR '' '' (strip (join '' '' rest)) = (a, b, c)"
      by (cases "partition_str CHR '' '' (strip (join '' '' rest))") auto
    have "body P S argv hs st (CHR ''#'' # cs) =
        (st\<lparr>seqMap := (seqMap st)(a \<mapsto> c), summaryWriter := summaryWriter st @ [strip (CHR ''#'' # cs)]\<rparr>, None)"
      using Cons True p by (simp add: body_def Let_def)
    then show ?thesis by blast
  next
    case False
    have "body P S argv hs st (CHR ''#'' # cs) =
        (st\<lparr>seqMap := seqMap st, summaryWriter := summaryWriter st @ [strip (CHR ''#'' # cs)]\<rparr>, None)"
      using Cons False by (simp add: body_def Let_def)
    then show ?thesis by blast
  qed
qed

lemma body_feature:
  assumes "c \<noteq> CHR ''#''"
  shows "body P S argv hs st (c # cs) =
     (case P (c # cs) of
        None \<Rightarrow> (write_headers argv st, Some ValueError)
      | Some r \<Rightarrow>
          if rec_type r = ''region'' then
            (case annotate hs r of
               Inl e \<Rightarrow> (write_headers argv st, Some e)
             | Inr r' \<Rightarrow> ((write_headers argv st)\<lparr>summaryWriter :=
                              summaryWriter (write_headers argv st) @ [S r']\<rparr>, None))
          else (write_headers argv st, None))"
  using assms by (simp add: body_def Let_def)

text \<open>The loop over a concatenation, over metadata lines, and after the header has ended.\<close>

lemma loop_append:
  "loop P S argv hs st (xs @ ys) =
     (case loop P S argv hs st xs of
        (st', Some e) \<Rightarrow> (st', Some e)
      | (st', None) \<Rightarrow> loop P S argv hs st' ys)"
  by (induction xs arbitrary: st) (auto split: prod.splits option.splits)

lemma loop_meta:
  assumes "\<forall>l\<in>set ms. l \<noteq> [] \<and> hd l = CHR ''#''"
  shows "\<exists>m. loop P S argv hs st ms =
           (st\<lparr>seqMap := m, summaryWriter := summaryWriter st @ map strip ms\<rparr>, None)"
  using assms
proof (induction ms arbitrary: st)
  case Nil
  have "st = st\<lparr>seqMap := seqMap st, summaryWriter := summaryWriter st @ map strip []\<rparr>" by simp
  then show ?case by (metis loop.simps(1))
next
  case (Cons l ms)
  then obtain cs where l: "l = CHR ''#'' # cs" by (cases l) auto
  obtain m where b: "body P S argv hs st l =
        (st\<lparr>seqMap := m, summaryWriter := summaryWriter st @ [strip l]\<rparr>, None)"
    using body_meta [of P S argv hs st cs] l by auto
  from Cons.prems have "\<forall>l\<in>set ms. l \<noteq> [] \<and> hd l = CHR ''#''" by simp
  from Cons.IH [OF this, of "st\<lparr>seqMap := m, summaryWriter := summaryWriter st @ [strip l]\<rparr>"]
  obtain m' where "loop P S argv hs (st\<lparr>seqMap := m, summaryWriter := summaryWriter st @ [strip l]\<rparr>) ms =
     (st\<lparr>seqMap := m', summaryWriter := summaryWriter st @ strip l # map strip ms\<rparr>, None)"
    by auto
  with b have "loop P S argv hs st (l # ms) =
     (st\<lparr>seqMap := m', summaryWriter := summaryWriter st @ map strip (l # ms)\<rparr>, None)"
    by simp
  then show ?case by (rule exI [of _ m'])
qed

lemma write_headers_idem [simp]: "write_headers argv (write_headers argv st) = write_headers argv st"
  by (simp add: write_headers_def)

lemma inHeader_write_headers [simp]: "inHeader (write_headers argv st) = False"
  by (simp add: write_headers_def)

lemma write_headers_done: "\<not> inHeader st \<Longrightarrow> write_headers argv st = st"
  by (simp add: write_headers_def)

lemma loop_after_header:
  "\<not> inHeader st \<Longrightarrow>
   summaryWriter (fst (loop P S argv hs st ls)) = summaryWriter st @ lines_after_header P S hs ls"
proof (induction P S hs ls arbitrary: st rule: lines_after_header.induct)
  case (1 P S hs)
  then show ?case by simp
next
  case (2 P S hs ls)
  then show ?case by (simp add: body_def)
next
  case (3 P S hs c cs ls)
  show ?case
  proof (cases "c = CHR ''#''")
    case True
    obtain m where b: "body P S argv hs st (c # cs) =
        (st\<lparr>seqMap := m, summaryWriter := summaryWriter st @ [strip (c # cs)]\<rparr>, None)"
      using body_meta [of P S argv hs st cs] True by auto
    have "\<not> inHeader (st\<lparr>seqMap := m, summaryWriter := summaryWriter st @ [strip (c # cs)]\<rparr>)"
      using "3.prems" by simp
    from "3.IH"(1) [OF True this] b True show ?thesis by simp
  next
    case False
    note wh = write_headers_done [OF "3.prems", of argv]
    show ?thesis
    proof (cases "P (c # cs)")
      case None
      with False show ?thesis by (simp add: body_feature wh)
    next
      case (Some r)
      show ?thesis
      proof (cases "rec_type r = ''region''")
        case True
        show ?thesis
        proof (cases "annotate hs r")
          case (Inl e)
          with False Some True show ?thesis by (simp add: body_feature wh)
        next
          case (Inr r')
          have "\<not> inHeader (st\<lparr>summaryWriter := summaryWriter st @ [S r']\<rparr>)"
            using "3.prems" by simp
          from "3.IH"(2) [OF False Some True Inr this] False Some True Inr
          show ?thesis by (simp add: body_feature wh)
        qed
      next
        case F: False
        from "3.IH"(3) [OF False Some F "3.prems"] False Some F
        show ?thesis by (simp add: body_feature wh)
      qed
    qed
  qed
qed

lemma body_feature_write_headers:
  "c \<noteq> CHR ''#'' \<Longrightarrow>
   body P S argv hs (write_headers argv st) (c # cs) = body P S argv hs st (c # cs)"
  by (simp add: body_feature split: option.splits sum.splits)

text \<open>The trimmed forms of the two example metadata lines.\<close>

lemma strip_version_line: "strip version_line = ''##gff-version 3''"
  by (simp add: strip_def version_line_def nl_def isspace_def)

lemma strip_sequence_header_line: "strip sequence_header_line = ''##sequence-header ref000001 chr1''"
  by (simp add: strip_def sequence_header_line_def nl_def isspace_def)

text \<open>A summary of metadata lines only: every line is written trimmed, nothing else.\<close>

lemma mainLoop_metadata_only:
  assumes "\<forall>l\<in>set summaryFile. l \<noteq> [] \<and> hd l = CHR ''#''"
  shows "summaryWriter (fst (mainLoop P S argv modReader summaryFile)) = map strip summaryFile \<and>
         inHeader (fst (mainLoop P S argv modReader summaryFile)) \<and>
         snd (mainLoop P S argv modReader summaryFile) = None"
proof -
  obtain m where "mainLoop P S argv modReader summaryFile =
      (\<lparr>seqMap = Map.empty, inHeader = True, summaryWriter = []\<rparr>
         \<lparr>seqMap := m, summaryWriter := [] @ map strip summaryFile\<rparr>, None)"
    using loop_meta [OF assms, of P S argv "hits modReader"
                       "\<lparr>seqMap = Map.empty, inHeader = True, summaryWriter = []\<rparr>"]
    unfolding mainLoop_def by auto
  then show ?thesis by simp
qed

section \<open>Metadata lines and the injected headers\<close>

text \<open>
  Claim C9. If every line of the alignment summary begins with \<^verbatim>\<open>#\<close> (the empty file
  included), the output is exactly the trimmed input lines, in order: the injected headers
  are not written, the flag is still set at the end, and the method returns.
\<close>

theorem no_feature_line_no_headers:
  assumes "\<forall>l\<in>set summaryFile. l \<noteq> [] \<and> hd l = CHR ''#''"
  shows "summaryWriter (fst (mainLoop P S argv modReader summaryFile)) = map strip summaryFile \<and>
         inHeader (fst (mainLoop P S argv modReader summaryFile)) \<and>
         snd (mainLoop P S argv modReader summaryFile) = None"
  using assms by (rule mainLoop_metadata_only)

theorem no_feature_line_no_headers_witness:
  "summaryWriter (fst (mainLoop example_fromString example_str [''summarizeModifications.py'']
                         [m6A_record] [version_line, sequence_header_line]))
     = [''##gff-version 3'', ''##sequence-header ref000001 chr1''] \<and>
   inHeader (fst (mainLoop example_fromString example_str [''summarizeModifications.py'']
                         [m6A_record] [version_line, sequence_header_line])) \<and>
   snd (mainLoop example_fromString example_str [''summarizeModifications.py'']
                         [m6A_record] [version_line, sequence_header_line]) = None"
proof -
  have "\<forall>l\<in>set [version_line, sequence_header_line]. l \<noteq> [] \<and> hd l = CHR ''#''"
    by (simp add: version_line_def sequence_header_line_def)
  from no_feature_line_no_headers [OF this]
  show ?thesis by (simp add: strip_version_line strip_sequence_header_line)
qed

section \<open>Feature lines\<close>

text \<open>A line that is not a metadata line, and what the loop writes for it.\<close>

lemma feature_line_cases:
  assumes "line \<noteq> []" "hd line \<noteq> CHR ''#''"
  obtains c cs where "line = c # cs" "c \<noteq> CHR ''#''"
  using assms by (cases line) auto

lemma body_non_region:
  assumes "line \<noteq> []" and "hd line \<noteq> CHR ''#''"
    and "P line = Some r" and "rec_type r \<noteq> ''region''"
  shows "body P S argv hs st line = (write_headers argv st, None)"
proof -
  from assms(1,2) obtain c cs where l: "line = c # cs" "c \<noteq> CHR ''#''"
    by (rule feature_line_cases)
  with assms(3,4) show ?thesis by (simp add: body_feature)
qed

lemma lines_after_header_meta:
  "l \<noteq> [] \<Longrightarrow> hd l = CHR ''#'' \<Longrightarrow>
   lines_after_header P S hs (l # ls) = strip l # lines_after_header P S hs ls"
  by (cases l) auto

lemma lines_after_header_feature:
  "l \<noteq> [] \<Longrightarrow> hd l \<noteq> CHR ''#'' \<Longrightarrow>
   lines_after_header P S hs (l # ls) =
     (case P l of
        None \<Rightarrow> []
      | Some r \<Rightarrow>
          if rec_type r = ''region'' then
            (case annotate hs r of Inl e \<Rightarrow> [] | Inr r' \<Rightarrow> S r' # lines_after_header P S hs ls)
          else lines_after_header P S hs ls)"
  by (cases l) auto

lemma mainLoop_header_once:
  assumes ms: "\<forall>l\<in>set ms. l \<noteq> [] \<and> hd l = CHR ''#''"
    and f: "f \<noteq> []" "hd f \<noteq> CHR ''#''"
  shows "summaryWriter (fst (mainLoop P S argv modReader (ms @ f # rest))) =
           map strip ms @ map format_header (headers argv) @
           lines_after_header P S (hits modReader) (f # rest)"
proof -
  let ?st0 = "\<lparr>seqMap = Map.empty, inHeader = True, summaryWriter = []\<rparr>"
  let ?hs = "hits modReader"
  from f obtain c cs where l: "f = c # cs" "c \<noteq> CHR ''#''"
    by (rule feature_line_cases)
  obtain m where pre: "loop P S argv ?hs ?st0 ms =
      (?st0\<lparr>seqMap := m, summaryWriter := summaryWriter ?st0 @ map strip ms\<rparr>, None)"
    using loop_meta [OF ms, of P S argv ?hs ?st0] by blast
  define st1 where "st1 = ?st0\<lparr>seqMap := m, summaryWriter := summaryWriter ?st0 @ map strip ms\<rparr>"
  have w: "summaryWriter (write_headers argv st1) = map strip ms @ map format_header (headers argv)"
    by (simp add: st1_def write_headers_def)
  have "loop P S argv ?hs st1 (f # rest) = loop P S argv ?hs (write_headers argv st1) (f # rest)"
    using l by (simp add: body_feature_write_headers)
  moreover have "summaryWriter (fst (loop P S argv ?hs (write_headers argv st1) (f # rest))) =
      summaryWriter (write_headers argv st1) @ lines_after_header P S ?hs (f # rest)"
    by (rule loop_after_header) simp
  ultimately have "summaryWriter (fst (loop P S argv ?hs st1 (f # rest))) =
      map strip ms @ map format_header (headers argv) @ lines_after_header P S ?hs (f # rest)"
    using w by simp
  moreover have "loop P S argv ?hs ?st0 (ms @ f # rest) = loop P S argv ?hs st1 (f # rest)"
    using pre by (simp add: loop_append st1_def)
  ultimately show ?thesis by (simp add: mainLoop_def)
qed

text \<open>The example data, evaluated.\<close>

lemma example_fromString_malformed: "example_fromString malformed_line = None"
  by (simp add: example_fromString_def malformed_line_def region_line_def gene_line_def nl_def tab_def)

lemma example_fromString_region: "example_fromString region_line = Some region_record"
  by (simp add: example_fromString_def)

lemma example_fromString_gene: "example_fromString gene_line = Some gene_record"
  by (simp add: example_fromString_def region_line_def gene_line_def nl_def tab_def)

lemma example_lines_hd:
  "malformed_line \<noteq> [] \<and> hd malformed_line \<noteq> CHR ''#''"
  "region_line \<noteq> [] \<and> hd region_line \<noteq> CHR ''#''"
  "gene_line \<noteq> [] \<and> hd gene_line \<noteq> CHR ''#''"
  by (simp_all add: malformed_line_def region_line_def gene_line_def nl_def tab_def)

lemma gene_not_region: "rec_type gene_record \<noteq> ''region''"
  by (simp add: gene_record_def)

lemma region_is_region: "rec_type region_record = ''region''"
  by (simp add: region_record_def)

lemma sequence_header_line_hd: "sequence_header_line \<noteq> [] \<and> hd sequence_header_line = CHR ''#''"
  by (simp add: sequence_header_line_def)

lemma version_line_hd: "version_line \<noteq> [] \<and> hd version_line = CHR ''#''"
  by (simp add: version_line_def)

lemma str_nat_small: "str_nat 0 = ''0''" "str_nat (Suc 0) = ''1''"
  by (subst str_nat.simps, simp)+

lemma annotate_example:
  "annotate (hits [m6A_record]) region_record =
     Inr (region_record\<lparr>attributes :=
            [(''cov'', ''3,5,9''), (''modsfwd'', ''0,1,0,0''), (''modsrev'', ''0,0,0,0'')]\<rparr>)"
  by (simp add: annotate_Inr strand_count_def overlaps_def hits_def hit_of_def m6A_record_def
        region_record_def knownModificationEvents_def setattr_def str_nat_small)

lemma example_out1: "summaryWriter (fst (mainLoop example_fromString example_str [''summarizeModifications.py'']
                         [m6A_record] [version_line, gene_line])) =
     ''##gff-version 3'' # map format_header (headers [''summarizeModifications.py''])"
proof -
  have v: "\<forall>l\<in>set [version_line]. l \<noteq> [] \<and> hd l = CHR ''#''"
    using version_line_hd by simp
  have "lines_after_header example_fromString example_str (hits [m6A_record]) [gene_line] = []"
    by (simp add: lines_after_header_feature example_lines_hd example_fromString_gene gene_not_region)
  with mainLoop_header_once [OF v example_lines_hd(3) [THEN conjunct1]
            example_lines_hd(3) [THEN conjunct2], of example_fromString example_str
            "[''summarizeModifications.py'']" "[m6A_record]" "[]"]
  show ?thesis by (simp add: strip_version_line)
qed

lemma hd_gene: "hd (example_str gene_record) = CHR ''c''"
    by (simp add: example_str_def gene_record_def tab_def)

lemma hd_headers: "\<forall>l\<in>set (map format_header (headers argv)). hd l = CHR ''#''"
    by (simp add: headers_def format_header_def)

text \<open>
  Claim C8. A feature line that \<^verbatim>\<open>Gff3Record.fromString\<close> rejects ends the run with an error,
  whatever precedes and follows it. When the lines before it were processed without error,
  the error is the \<^verbatim>\<open>ValueError\<close> of that line, and the output is what was written for the
  lines before it, followed by the injected headers if the line is the first feature line:
  nothing written earlier is taken back, and no later line adds anything.
\<close>

theorem malformed_feature_line_fatal:
  assumes "line \<noteq> []" and "hd line \<noteq> CHR ''#''" and "P line = None"
  shows "snd (mainLoop P S argv modReader (pre @ line # post)) \<noteq> None \<and>
         (snd (mainLoop P S argv modReader pre) = None \<longrightarrow>
            snd (mainLoop P S argv modReader (pre @ line # post)) = Some ValueError \<and>
            summaryWriter (fst (mainLoop P S argv modReader (pre @ line # post))) =
              summaryWriter (fst (mainLoop P S argv modReader pre)) @
              (if inHeader (fst (mainLoop P S argv modReader pre))
               then map format_header (headers argv) else []))"
proof -
  from assms(1,2) obtain c cs where l: "line = c # cs" "c \<noteq> CHR ''#''"
    by (rule feature_line_cases)
  let ?st0 = "\<lparr>seqMap = Map.empty, inHeader = True, summaryWriter = []\<rparr>"
  let ?hs = "hits modReader"
  have b: "body P S argv ?hs st line = (write_headers argv st, Some ValueError)" for st
    using l assms(3) by (simp add: body_feature)
  obtain st1 e1 where p: "loop P S argv ?hs ?st0 pre = (st1, e1)"
    by (cases "loop P S argv ?hs ?st0 pre")
  show ?thesis
  proof (cases e1)
    case None
    have "loop P S argv ?hs ?st0 (pre @ line # post) = (write_headers argv st1, Some ValueError)"
      using p None b [of st1] by (simp add: loop_append)
    with p None show ?thesis
      by (simp add: mainLoop_def write_headers_def)
  next
    case (Some e)
    have "loop P S argv ?hs ?st0 (pre @ line # post) = (st1, Some e)"
      using p Some by (simp add: loop_append)
    with p Some show ?thesis by (simp add: mainLoop_def)
  qed
qed

theorem malformed_feature_line_fatal_witness:
  "snd (mainLoop example_fromString example_str [''summarizeModifications.py'']
          [m6A_record] ([version_line] @ malformed_line # [region_line])) = Some ValueError \<and>
   summaryWriter (fst (mainLoop example_fromString example_str [''summarizeModifications.py'']
          [m6A_record] ([version_line] @ malformed_line # [region_line]))) =
     [''##gff-version 3''] @ map format_header (headers [''summarizeModifications.py''])"
proof -
  have v: "\<forall>l\<in>set [version_line]. l \<noteq> [] \<and> hd l = CHR ''#''"
    by (simp add: version_line_def)
  have pre: "summaryWriter (fst (mainLoop example_fromString example_str [''summarizeModifications.py'']
                 [m6A_record] [version_line])) = [''##gff-version 3''] \<and>
         inHeader (fst (mainLoop example_fromString example_str [''summarizeModifications.py'']
                 [m6A_record] [version_line])) \<and>
         snd (mainLoop example_fromString example_str [''summarizeModifications.py'']
                 [m6A_record] [version_line]) = None"
    using mainLoop_metadata_only [OF v] by (simp add: strip_version_line)
  from malformed_feature_line_fatal
         [of malformed_line example_fromString example_str "[''summarizeModifications.py'']"
             "[m6A_record]" "[version_line]" "[region_line]",
          OF example_lines_hd(1) [THEN conjunct1] example_lines_hd(1) [THEN conjunct2]
             example_fromString_malformed]
  show ?thesis using pre by simp
qed

text \<open>
  Claim C1, as the code has it. The \<^verbatim>\<open>print\<close> of the record is inside
  \<^verbatim>\<open>if rec.type == 'region'\<close>: a feature line of another type is parsed and nothing is
  written for it (only the injected headers, if it is the first feature line). Once the
  header has ended, the loop on such a line followed by other lines behaves as on the
  other lines alone.
\<close>

theorem non_region_feature_dropped:
  assumes "line \<noteq> []" and "hd line \<noteq> CHR ''#''"
    and "P line = Some r" and "rec_type r \<noteq> ''region''"
  shows "body P S argv hs st line = (write_headers argv st, None) \<and>
         (\<not> inHeader st \<longrightarrow>
            body P S argv hs st line = (st, None) \<and>
            loop P S argv hs st (line # ls) = loop P S argv hs st ls)"
  using assms body_non_region [of line P r S argv hs st]
  by (simp add: write_headers_done)

theorem non_region_feature_dropped_witness:
  "body example_fromString example_str [''summarizeModifications.py''] (hits [m6A_record])
     \<lparr>seqMap = Map.empty, inHeader = False, summaryWriter = [''##gff-version 3'']\<rparr> gene_line =
     (\<lparr>seqMap = Map.empty, inHeader = False, summaryWriter = [''##gff-version 3'']\<rparr>, None) \<and>
   loop example_fromString example_str [''summarizeModifications.py''] (hits [m6A_record])
     \<lparr>seqMap = Map.empty, inHeader = False, summaryWriter = [''##gff-version 3'']\<rparr>
     (gene_line # [region_line]) =
   loop example_fromString example_str [''summarizeModifications.py''] (hits [m6A_record])
     \<lparr>seqMap = Map.empty, inHeader = False, summaryWriter = [''##gff-version 3'']\<rparr>
     [region_line]"
  using non_region_feature_dropped
          [of gene_line example_fromString gene_record example_str
              "[''summarizeModifications.py'']" "hits [m6A_record]"
              "\<lparr>seqMap = Map.empty, inHeader = False, summaryWriter = [''##gff-version 3'']\<rparr>"
              "[region_line]"]
        example_lines_hd(3) example_fromString_gene gene_not_region
  by (simp add: write_headers_def)

text \<open>
  Claim C1 as stated fails: for a summary of one metadata line and one \<^verbatim>\<open>gene\<close> line the
  output is the metadata line and the injected headers, and the record of the \<^verbatim>\<open>gene\<close>
  line is not in it.
\<close>

theorem non_region_feature_counterexample:
  "example_fromString gene_line = Some gene_record \<and>
   rec_type gene_record \<noteq> ''region'' \<and>
   summaryWriter (fst (mainLoop example_fromString example_str [''summarizeModifications.py'']
                         [m6A_record] [version_line, gene_line])) =
     ''##gff-version 3'' # map format_header (headers [''summarizeModifications.py'']) \<and>
   example_str gene_record \<notin>
     set (summaryWriter (fst (mainLoop example_fromString example_str [''summarizeModifications.py'']
                                [m6A_record] [version_line, gene_line])))"
proof -
  have "example_str gene_record \<notin>
     set (''##gff-version 3'' # map format_header (headers [''summarizeModifications.py'']))"
  proof
    assume "example_str gene_record \<in>
      set (''##gff-version 3'' # map format_header (headers [''summarizeModifications.py'']))"
    then have "example_str gene_record = ''##gff-version 3'' \<or>
      example_str gene_record \<in> set (map format_header (headers [''summarizeModifications.py'']))"
      by simp
    then have "hd (example_str gene_record) = CHR ''#''"
      using hd_headers [of "[''summarizeModifications.py'']"] by auto
    then show False by (simp add: hd_gene)
  qed
  then show ?thesis
    by (simp only: example_out1 example_fromString_gene gene_not_region simp_thms)
qed

text \<open>The example summaries, run.\<close>

lemma example_tail:
  "lines_after_header example_fromString example_str (hits [m6A_record])
     [region_line, sequence_header_line, gene_line] =
   [example_str (region_record\<lparr>attributes :=
      [(''cov'', ''3,5,9''), (''modsfwd'', ''0,1,0,0''), (''modsrev'', ''0,0,0,0'')]\<rparr>),
    ''##sequence-header ref000001 chr1'']"
  by (simp add: lines_after_header_feature lines_after_header_meta example_lines_hd
        sequence_header_line_hd example_fromString_region example_fromString_gene
        gene_not_region region_is_region annotate_example strip_sequence_header_line)

lemma example_out_metadata:
  "summaryWriter (fst (mainLoop example_fromString example_str [''summarizeModifications.py'']
      [m6A_record] [version_line, sequence_header_line])) =
   [''##gff-version 3'', ''##sequence-header ref000001 chr1'']"
proof -
  have "\<forall>l\<in>set [version_line, sequence_header_line]. l \<noteq> [] \<and> hd l = CHR ''#''"
    using version_line_hd sequence_header_line_hd by simp
  from mainLoop_metadata_only [OF this]
  show ?thesis by (simp add: strip_version_line strip_sequence_header_line)
qed

lemma example_out_interleaved:
  "summaryWriter (fst (mainLoop example_fromString example_str [''summarizeModifications.py'']
      [m6A_record] [version_line, region_line, sequence_header_line])) =
   [''##gff-version 3''] @ map format_header (headers [''summarizeModifications.py'']) @
   [example_str (region_record\<lparr>attributes :=
      [(''cov'', ''3,5,9''), (''modsfwd'', ''0,1,0,0''), (''modsrev'', ''0,0,0,0'')]\<rparr>),
    ''##sequence-header ref000001 chr1'']"
proof -
  have v: "\<forall>l\<in>set [version_line]. l \<noteq> [] \<and> hd l = CHR ''#''"
    using version_line_hd by simp
  have t: "lines_after_header example_fromString example_str (hits [m6A_record])
     [region_line, sequence_header_line] =
   [example_str (region_record\<lparr>attributes :=
      [(''cov'', ''3,5,9''), (''modsfwd'', ''0,1,0,0''), (''modsrev'', ''0,0,0,0'')]\<rparr>),
    ''##sequence-header ref000001 chr1'']"
    by (simp add: lines_after_header_feature lines_after_header_meta example_lines_hd
        sequence_header_line_hd example_fromString_region region_is_region annotate_example
        strip_sequence_header_line)
  from mainLoop_header_once
         [OF v example_lines_hd(2) [THEN conjunct1] example_lines_hd(2) [THEN conjunct2],
          of example_fromString example_str "[''summarizeModifications.py'']" "[m6A_record]"
             "[sequence_header_line]"]
  show ?thesis by (simp add: t strip_version_line)
qed

text \<open>
  Claim C2, as the code has it. The headers are injected when the first line that does not
  begin with \<^verbatim>\<open>#\<close> is met. For a summary with such a line, the output is: the metadata
  lines that precede it, trimmed and in order (\<^verbatim>\<open>sequence-header\<close> lines included); then the
  six injected headers (\<^verbatim>\<open>source\<close>, \<^verbatim>\<open>source-commandline\<close>, two \<^verbatim>\<open>attribute-description\<close>,
  two \<^verbatim>\<open>region-modsfwd\<close>); then what is written for that line and the lines after it, where
  a later metadata line is again written trimmed and no header is written any more. For the
  leading metadata lines alone, with no feature line after them, the output is those lines
  trimmed and no header.
\<close>

theorem headers_after_leading_metadata:
  assumes "\<forall>l\<in>set ms. l \<noteq> [] \<and> hd l = CHR ''#''"
    and "f \<noteq> []" and "hd f \<noteq> CHR ''#''"
  shows "summaryWriter (fst (mainLoop P S argv modReader (ms @ f # rest))) =
           map strip ms @ map format_header (headers argv) @
           lines_after_header P S (hits modReader) (f # rest) \<and>
         map fst (headers argv) =
           [''source'', ''source-commandline'', ''attribute-description'',
            ''attribute-description'', ''region-modsfwd'', ''region-modsfwd''] \<and>
         summaryWriter (fst (mainLoop P S argv modReader ms)) = map strip ms"
  using mainLoop_header_once [OF assms] mainLoop_metadata_only [OF assms(1), of P S argv modReader]
  by (simp add: headers_def)

theorem headers_after_leading_metadata_witness:
  "summaryWriter (fst (mainLoop example_fromString example_str [''summarizeModifications.py'']
      [m6A_record] ([version_line] @ region_line # [sequence_header_line, gene_line]))) =
     [''##gff-version 3''] @ map format_header (headers [''summarizeModifications.py'']) @
     [example_str (region_record\<lparr>attributes :=
        [(''cov'', ''3,5,9''), (''modsfwd'', ''0,1,0,0''), (''modsrev'', ''0,0,0,0'')]\<rparr>),
      ''##sequence-header ref000001 chr1''] \<and>
   map fst (headers [''summarizeModifications.py'']) =
     [''source'', ''source-commandline'', ''attribute-description'',
      ''attribute-description'', ''region-modsfwd'', ''region-modsfwd''] \<and>
   summaryWriter (fst (mainLoop example_fromString example_str [''summarizeModifications.py'']
      [m6A_record] [version_line])) = [''##gff-version 3'']"
proof -
  have v: "\<forall>l\<in>set [version_line]. l \<noteq> [] \<and> hd l = CHR ''#''"
    using version_line_hd by simp
  from headers_after_leading_metadata
         [OF v example_lines_hd(2) [THEN conjunct1] example_lines_hd(2) [THEN conjunct2],
          of example_fromString example_str "[''summarizeModifications.py'']" "[m6A_record]"
             "[sequence_header_line, gene_line]"]
  show ?thesis by (simp only: example_tail list.map strip_version_line)
qed

text \<open>
  Claim C2 as stated fails twice. For a summary of two metadata lines and no feature line the
  output does not contain the injected headers at all. For a summary with a metadata line
  after the first feature line, the headers are written before that feature line, so the
  last metadata line of the input comes after them, not before.
\<close>

theorem headers_placement_counterexample:
  "(\<not> (\<exists>pre post.
        summaryWriter (fst (mainLoop example_fromString example_str [''summarizeModifications.py'']
          [m6A_record] [version_line, sequence_header_line])) =
        pre @ map format_header (headers [''summarizeModifications.py'']) @ post)) \<and>
   summaryWriter (fst (mainLoop example_fromString example_str [''summarizeModifications.py'']
      [m6A_record] [version_line, region_line, sequence_header_line])) =
     [''##gff-version 3''] @ map format_header (headers [''summarizeModifications.py'']) @
     [example_str (region_record\<lparr>attributes :=
        [(''cov'', ''3,5,9''), (''modsfwd'', ''0,1,0,0''), (''modsrev'', ''0,0,0,0'')]\<rparr>),
      ''##sequence-header ref000001 chr1'']"
proof (rule conjI)
  show "\<not> (\<exists>pre post.
        summaryWriter (fst (mainLoop example_fromString example_str [''summarizeModifications.py'']
          [m6A_record] [version_line, sequence_header_line])) =
        pre @ map format_header (headers [''summarizeModifications.py'']) @ post)"
  proof
    assume "\<exists>pre post.
        summaryWriter (fst (mainLoop example_fromString example_str [''summarizeModifications.py'']
          [m6A_record] [version_line, sequence_header_line])) =
        pre @ map format_header (headers [''summarizeModifications.py'']) @ post"
    then obtain pre post where
      "[''##gff-version 3'', ''##sequence-header ref000001 chr1''] =
         pre @ map format_header (headers [''summarizeModifications.py'']) @ post"
      unfolding example_out_metadata by blast
    then have "length [''##gff-version 3'', ''##sequence-header ref000001 chr1''] =
         length (pre @ map format_header (headers [''summarizeModifications.py'']) @ post)"
      by (rule arg_cong)
    then show False by (simp add: headers_def)
  qed
next
  show "summaryWriter (fst (mainLoop example_fromString example_str [''summarizeModifications.py'']
      [m6A_record] [version_line, region_line, sequence_header_line])) =
     [''##gff-version 3''] @ map format_header (headers [''summarizeModifications.py'']) @
     [example_str (region_record\<lparr>attributes :=
        [(''cov'', ''3,5,9''), (''modsfwd'', ''0,1,0,0''), (''modsrev'', ''0,0,0,0'')]\<rparr>),
      ''##sequence-header ref000001 chr1'']"
    by (rule example_out_interleaved)
qed

section \<open>The count attributes\<close>

text \<open>Decimal tokens: digits only, read back to the number they were written from.\<close>

lemma digit_codes: "map of_char ''0123456789'' = map (\<lambda>n. 48 + n) [0..<10 :: nat]"
  by (simp add: upt_rec)

lemma digit_char: "n < 10 \<Longrightarrow> of_char (''0123456789'' ! n) = (48 + n :: nat)"
proof -
  assume n: "n < 10"
  then have "map of_char ''0123456789'' ! n = (of_char (''0123456789'' ! n) :: nat)"
    by (intro nth_map) simp
  then have "(of_char (''0123456789'' ! n) :: nat) = map of_char ''0123456789'' ! n"
    by (rule sym)
  also have "\<dots> = (48 + n :: nat)"
    using n by (simp only: digit_codes) simp
  finally show ?thesis .
qed

lemma digit_char_mem: "n < 10 \<Longrightarrow> ''0123456789'' ! n \<in> set ''0123456789''"
  by (rule nth_mem) simp

lemma str_nat_digits: "str_nat n \<noteq> [] \<and> set (str_nat n) \<subseteq> set ''0123456789''"
proof (induction n rule: str_nat.induct)
  case (1 n)
  show ?case
  proof (cases "n < 10")
    case True
    then show ?thesis
      using digit_char_mem [of n] by (subst (1 2) str_nat.simps) simp
  next
    case False
    have "n mod 10 < 10" by simp
    then have "''0123456789'' ! (n mod 10) \<in> set ''0123456789''" by (rule digit_char_mem)
    with False 1 show ?thesis
      by (subst (1 2) str_nat.simps) simp
  qed
qed

lemma nat_of_str_snoc: "nat_of_str (s @ [c]) = 10 * nat_of_str s + (of_char c - 48)"
  by (simp add: nat_of_str_def)

lemma nat_of_str_str_nat: "nat_of_str (str_nat n) = n"
proof (induction n rule: str_nat.induct)
  case (1 n)
  show ?case
  proof (cases "n < 10")
    case True
    then have "str_nat n = [''0123456789'' ! n]" by (subst str_nat.simps) simp
    then show ?thesis using digit_char [OF True] by (simp add: nat_of_str_def)
  next
    case False
    then have s: "str_nat n = str_nat (n div 10) @ [''0123456789'' ! (n mod 10)]"
      by (subst str_nat.simps) simp
    have "of_char (''0123456789'' ! (n mod 10)) = (48 + n mod 10 :: nat)"
      by (rule digit_char) simp
    with 1 False show ?thesis
      by (simp only: s nat_of_str_snoc) simp
  qed
qed

text \<open>Splitting a comma-joined list of tokens that hold no comma gives the tokens back.\<close>

lemma split_str_no_sep: "c \<notin> set s \<Longrightarrow> split_str c s = [s]"
  by (induction s) auto

lemma split_str_append_sep:
  "c \<notin> set s \<Longrightarrow> split_str c (s @ c # rest) = s # split_str c rest"
  by (induction s) auto

lemma split_join:
  "ss \<noteq> [] \<Longrightarrow> \<forall>s\<in>set ss. c \<notin> set s \<Longrightarrow> split_str c (join [c] ss) = ss"
proof (induction "[c]" ss rule: join.induct)
  case 1
  then show ?case by simp
next
  case (2 x)
  then show ?case by (simp add: split_str_no_sep)
next
  case (3 x y ys)
  then show ?case by (simp add: split_str_append_sep)
qed

text \<open>The tokens of the two attributes of an annotated region.\<close>

lemma count_tokens_known:
  "map (\<lambda>t. str_nat (strand_count hs r s t)) knownModificationEvents = count_tokens hs r s"
  by (simp add: count_tokens_def knownModificationEvents_def)

lemma annotate_tokens:
  "annotate hs r =
     Inr (setattr (setattr r ''modsfwd'' (join '','' (count_tokens hs r ''+'')))
            ''modsrev'' (join '','' (count_tokens hs r ''-'')))"
  by (simp only: annotate_Inr count_tokens_known)

lemma getattr_annotated:
  "getattr (setattr (setattr r ''modsfwd'' v) ''modsrev'' w) ''modsfwd'' = Some v"
  "getattr (setattr (setattr r ''modsfwd'' v) ''modsrev'' w) ''modsrev'' = Some w"
  by (simp_all add: getattr_setattr)

lemma count_tokens_length: "length (count_tokens hs r s) = 4"
  by (simp add: count_tokens_def)

lemma count_tokens_digits:
  "tok \<in> set (count_tokens hs r s) \<Longrightarrow> tok \<noteq> [] \<and> set tok \<subseteq> set ''0123456789''"
proof -
  assume "tok \<in> set (count_tokens hs r s)"
  then obtain t where "tok = str_nat (strand_count hs r s t)"
    unfolding count_tokens_def by (simp only: set_map) blast
  then show ?thesis by (simp only: str_nat_digits simp_thms)
qed

lemma count_tokens_split:
  "split_str CHR '','' (join '','' (count_tokens hs r s)) = count_tokens hs r s"
proof (rule split_join)
  show "count_tokens hs r s \<noteq> []" by (simp add: count_tokens_def)
  show "\<forall>tok\<in>set (count_tokens hs r s). CHR '','' \<notin> set tok"
  proof
    fix tok assume "tok \<in> set (count_tokens hs r s)"
    then have "set tok \<subseteq> set ''0123456789''" using count_tokens_digits by blast
    moreover have "CHR '','' \<notin> set ''0123456789''" by simp
    ultimately show "CHR '','' \<notin> set tok" by blast
  qed
qed

lemma count_tokens_nth:
  "i < 4 \<Longrightarrow> count_tokens hs r s ! i = str_nat (strand_count hs r s (knownModificationEvents ! i))"
  unfolding count_tokens_def knownModificationEvents_def
  by (simp only: nth_map length_Cons list.size)

lemma count_tokens_values:
  "map nat_of_str (count_tokens hs r s) = map (strand_count hs r s) knownModificationEvents"
  by (simp add: count_tokens_def knownModificationEvents_def nat_of_str_str_nat)

lemma body_region:
  assumes "line \<noteq> []" and "hd line \<noteq> CHR ''#''"
    and "P line = Some r" and "rec_type r = ''region''"
  shows "body P S argv hs st line =
     ((write_headers argv st)\<lparr>summaryWriter := summaryWriter (write_headers argv st) @
        [S (setattr (setattr r ''modsfwd'' (join '','' (count_tokens hs r ''+'')))
              ''modsrev'' (join '','' (count_tokens hs r ''-'')))]\<rparr>, None)"
proof -
  from assms(1,2) obtain c cs where l: "line = c # cs" "c \<noteq> CHR ''#''"
    by (rule feature_line_cases)
  with assms(3,4) show ?thesis by (simp add: body_feature annotate_tokens)
qed

lemma example_tokens:
  "count_tokens (hits [m6A_record]) region_record ''+'' = [''0'', ''1'', ''0'', ''0'']"
  "count_tokens (hits [m6A_record]) region_record ''-'' = [''0'', ''0'', ''0'', ''0'']"
  by (simp_all add: count_tokens_def strand_count_def overlaps_def hits_def hit_of_def
        m6A_record_def region_record_def knownModificationEvents_def str_nat_small)

text \<open>
  Claim C3. For a feature line that parses to a record of type \<^verbatim>\<open>region\<close>, the loop writes
  one record, and in it both \<^verbatim>\<open>modsfwd\<close> and \<^verbatim>\<open>modsrev\<close> are present. Each is the
  comma-joined list of exactly four tokens, which splitting at the commas gives back; the
  token at place \<open>i\<close> is the decimal count for the \<open>i\<close>-th known type (in the order
  \<^verbatim>\<open>modified_base\<close>, \<^verbatim>\<open>m6A\<close>, \<^verbatim>\<open>m4C\<close>, \<^verbatim>\<open>m5C\<close>), a non-empty string of digits, and it
  is \<^verbatim>\<open>0\<close> when no hit of that type and strand overlaps the region.
\<close>

theorem region_count_attributes:
  assumes "line \<noteq> []" and "hd line \<noteq> CHR ''#''"
    and "P line = Some r" and "rec_type r = ''region''"
  shows "\<exists>r'. annotate hs r = Inr r' \<and>
           body P S argv hs st line =
             ((write_headers argv st)\<lparr>summaryWriter :=
                 summaryWriter (write_headers argv st) @ [S r']\<rparr>, None) \<and>
           getattr r' ''modsfwd'' = Some (join '','' (count_tokens hs r ''+'')) \<and>
           getattr r' ''modsrev'' = Some (join '','' (count_tokens hs r ''-'')) \<and>
           (\<forall>s\<in>{''+'', ''-''}.
              split_str CHR '','' (join '','' (count_tokens hs r s)) = count_tokens hs r s \<and>
              length (count_tokens hs r s) = 4 \<and>
              (\<forall>tok\<in>set (count_tokens hs r s). tok \<noteq> [] \<and> set tok \<subseteq> set ''0123456789'') \<and>
              (\<forall>i<4. count_tokens hs r s ! i =
                        str_nat (strand_count hs r s (knownModificationEvents ! i)) \<and>
                      (strand_count hs r s (knownModificationEvents ! i) = 0 \<longrightarrow>
                         count_tokens hs r s ! i = ''0'')))"
proof -
  let ?r' = "setattr (setattr r ''modsfwd'' (join '','' (count_tokens hs r ''+'')))
              ''modsrev'' (join '','' (count_tokens hs r ''-''))"
  have tok: "split_str CHR '','' (join '','' (count_tokens hs r s)) = count_tokens hs r s \<and>
              length (count_tokens hs r s) = 4 \<and>
              (\<forall>tok\<in>set (count_tokens hs r s). tok \<noteq> [] \<and> set tok \<subseteq> set ''0123456789'') \<and>
              (\<forall>i<4. count_tokens hs r s ! i =
                        str_nat (strand_count hs r s (knownModificationEvents ! i)) \<and>
                      (strand_count hs r s (knownModificationEvents ! i) = 0 \<longrightarrow>
                         count_tokens hs r s ! i = ''0''))" for s
  proof (intro conjI allI impI ballI)
    show "split_str CHR '','' (join '','' (count_tokens hs r s)) = count_tokens hs r s"
      by (rule count_tokens_split)
    show "length (count_tokens hs r s) = 4" by (rule count_tokens_length)
    show "tok \<noteq> []" if "tok \<in> set (count_tokens hs r s)" for tok
      using count_tokens_digits [OF that] by blast
    show "set tok \<subseteq> set ''0123456789''" if "tok \<in> set (count_tokens hs r s)" for tok
      using count_tokens_digits [OF that] by blast
    show "count_tokens hs r s ! i = str_nat (strand_count hs r s (knownModificationEvents ! i))"
      if "i < 4" for i using that by (rule count_tokens_nth)
    show "count_tokens hs r s ! i = ''0''"
      if "i < 4" "strand_count hs r s (knownModificationEvents ! i) = 0" for i
      using count_tokens_nth [OF that(1), of hs r s] that(2) by (simp add: str_nat_small)
  qed
  have toks: "\<forall>s\<in>{''+'', ''-''}.
              split_str CHR '','' (join '','' (count_tokens hs r s)) = count_tokens hs r s \<and>
              length (count_tokens hs r s) = 4 \<and>
              (\<forall>tok\<in>set (count_tokens hs r s). tok \<noteq> [] \<and> set tok \<subseteq> set ''0123456789'') \<and>
              (\<forall>i<4. count_tokens hs r s ! i =
                        str_nat (strand_count hs r s (knownModificationEvents ! i)) \<and>
                      (strand_count hs r s (knownModificationEvents ! i) = 0 \<longrightarrow>
                         count_tokens hs r s ! i = ''0''))"
    by (rule ballI) (rule tok)
  have a: "annotate hs r = Inr ?r'" by (rule annotate_tokens)
  have b: "body P S argv hs st line =
             ((write_headers argv st)\<lparr>summaryWriter :=
                 summaryWriter (write_headers argv st) @ [S ?r']\<rparr>, None)"
    using assms by (rule body_region)
  have c: "getattr ?r' ''modsfwd'' = Some (join '','' (count_tokens hs r ''+''))"
    by (rule getattr_annotated)
  have d: "getattr ?r' ''modsrev'' = Some (join '','' (count_tokens hs r ''-''))"
    by (rule getattr_annotated)
  show ?thesis
    by (rule exI [of _ ?r']) (intro conjI a b c d toks)
qed

theorem region_count_attributes_witness:
  "\<exists>r'. annotate (hits [m6A_record]) region_record = Inr r' \<and>
     body example_fromString example_str [''summarizeModifications.py''] (hits [m6A_record])
       \<lparr>seqMap = Map.empty, inHeader = False, summaryWriter = [''##gff-version 3'']\<rparr>
       region_line =
       (\<lparr>seqMap = Map.empty, inHeader = False,
         summaryWriter = [''##gff-version 3'', example_str r']\<rparr>, None) \<and>
     getattr r' ''modsfwd'' = Some ''0,1,0,0'' \<and>
     getattr r' ''modsrev'' = Some ''0,0,0,0'' \<and>
     split_str CHR '','' ''0,1,0,0'' = [''0'', ''1'', ''0'', ''0''] \<and>
     split_str CHR '','' ''0,0,0,0'' = [''0'', ''0'', ''0'', ''0'']"
proof -
  let ?st = "\<lparr>seqMap = Map.empty, inHeader = False, summaryWriter = [''##gff-version 3'']\<rparr>"
  from region_count_attributes
         [where line = region_line and P = example_fromString and r = region_record
            and hs = "hits [m6A_record]" and S = example_str
            and argv = "[''summarizeModifications.py'']" and st = ?st,
          OF example_lines_hd(2) [THEN conjunct1] example_lines_hd(2) [THEN conjunct2]
             example_fromString_region region_is_region]
  obtain r' where
    a: "annotate (hits [m6A_record]) region_record = Inr r'" and
    b: "body example_fromString example_str [''summarizeModifications.py''] (hits [m6A_record])
          ?st region_line =
        ((write_headers [''summarizeModifications.py''] ?st)\<lparr>summaryWriter :=
            summaryWriter (write_headers [''summarizeModifications.py''] ?st) @ [example_str r']\<rparr>,
         None)" and
    c: "getattr r' ''modsfwd'' = Some (join '','' (count_tokens (hits [m6A_record]) region_record ''+''))" and
    d: "getattr r' ''modsrev'' = Some (join '','' (count_tokens (hits [m6A_record]) region_record ''-''))" and
    e: "\<forall>s\<in>{''+'', ''-''}.
          split_str CHR '','' (join '','' (count_tokens (hits [m6A_record]) region_record s)) =
          count_tokens (hits [m6A_record]) region_record s \<and>
          length (count_tokens (hits [m6A_record]) region_record s) = 4 \<and>
          (\<forall>tok\<in>set (count_tokens (hits [m6A_record]) region_record s).
             tok \<noteq> [] \<and> set tok \<subseteq> set ''0123456789'') \<and>
          (\<forall>i<4. count_tokens (hits [m6A_record]) region_record s ! i =
                    str_nat (strand_count (hits [m6A_record]) region_record s
                               (knownModificationEvents ! i)) \<and>
                  (strand_count (hits [m6A_record]) region_record s
                     (knownModificationEvents ! i) = 0 \<longrightarrow>
                   count_tokens (hits [m6A_record]) region_record s ! i = ''0''))"
    by (elim exE conjE)
  have b': "body example_fromString example_str [''summarizeModifications.py''] (hits [m6A_record])
          ?st region_line =
       (\<lparr>seqMap = Map.empty, inHeader = False,
         summaryWriter = [''##gff-version 3'', example_str r']\<rparr>, None)"
    using b by (simp add: write_headers_def)
  have c': "getattr r' ''modsfwd'' = Some ''0,1,0,0''"
    using c by (simp add: example_tokens)
  have d': "getattr r' ''modsrev'' = Some ''0,0,0,0''"
    using d by (simp add: example_tokens)
  from e have "split_str CHR '','' (join '','' (count_tokens (hits [m6A_record]) region_record ''+'')) =
          count_tokens (hits [m6A_record]) region_record ''+''"
    by simp
  then have e1: "split_str CHR '','' ''0,1,0,0'' = [''0'', ''1'', ''0'', ''0'']"
    by (simp add: example_tokens)
  from e have "split_str CHR '','' (join '','' (count_tokens (hits [m6A_record]) region_record ''-'')) =
          count_tokens (hits [m6A_record]) region_record ''-''"
    by simp
  then have e2: "split_str CHR '','' ''0,0,0,0'' = [''0'', ''0'', ''0'', ''0'']"
    by (simp add: example_tokens)
  show ?thesis
    by (rule exI [of _ r']) (intro conjI a b' c' d' e1 e2)
qed

section \<open>Which hits a region selects\<close>

text \<open>
  A hit that does not overlap the region, or whose strand symbol is not the one counted,
  changes no count; so a record of the modification file on a sequence that no region
  has can be taken out of the file without changing the run.
\<close>

lemma intervalHits_overlaps: "intervalHits hs r = filter (overlaps r) hs"
  unfolding intervalHits_def by (rule filter_cong) (auto simp: overlaps_def)

lemma strand_count_Cons:
  "strand_count (h # hs) r s t =
     strand_count hs r s t + (if overlaps r h \<and> strand h = s \<and> type h = t then 1 else 0)"
  by (simp add: strand_count_def)

lemma strand_count_append:
  "strand_count (a @ b) r s t = strand_count a r s t + strand_count b r s t"
  by (simp add: strand_count_def)

lemma strand_count_drop:
  assumes "\<not> overlaps r h \<or> strand h \<noteq> s"
  shows "strand_count (a @ h # b) r s t = strand_count (a @ b) r s t"
  using assms by (auto simp: strand_count_append strand_count_Cons)

lemma count_tokens_drop:
  assumes "\<not> overlaps r h \<or> strand h \<noteq> s"
  shows "count_tokens (a @ h # b) r s = count_tokens (a @ b) r s"
  unfolding count_tokens_def by (simp only: strand_count_drop [OF assms])

lemma annotate_drop:
  assumes "\<not> overlaps r h \<or> (strand h \<noteq> ''+'' \<and> strand h \<noteq> ''-'')"
  shows "annotate (a @ h # b) r = annotate (a @ b) r"
proof -
  from assms have "\<not> overlaps r h \<or> strand h \<noteq> ''+''" "\<not> overlaps r h \<or> strand h \<noteq> ''-''"
    by blast+
  then show ?thesis
    by (simp only: annotate_tokens count_tokens_drop)
qed

lemma hits_append: "hits (xs @ ys) = hits xs @ hits ys"
  by (simp add: hits_def)

lemma hits_Cons:
  "hits (x # xs) =
     (if rec_type x \<in> set knownModificationEvents then [hit_of x] else []) @ hits xs"
  by (simp add: hits_def)

lemma body_cong_hits:
  assumes "\<And>r. P l = Some r \<Longrightarrow> rec_type r = ''region'' \<Longrightarrow> annotate hs r = annotate hs' r"
  shows "body P S argv hs st l = body P S argv hs' st l"
proof (cases l)
  case Nil
  then show ?thesis by (simp add: body_def)
next
  case (Cons c cs)
  show ?thesis
  proof (cases "c = CHR ''#''")
    case True
    with Cons show ?thesis by (simp add: body_def)
  next
    case False
    show ?thesis
    proof (cases "P l")
      case None
      with False Cons show ?thesis by (simp add: body_feature)
    next
      case (Some r)
      show ?thesis
      proof (cases "rec_type r = ''region''")
        case True
        from assms [OF Some True] False Cons Some True show ?thesis
          by (simp add: body_feature)
      next
        case F: False
        with False Cons Some show ?thesis by (simp add: body_feature)
      qed
    qed
  qed
qed

lemma loop_cong_hits:
  assumes "\<And>l r. l \<in> set ls \<Longrightarrow> P l = Some r \<Longrightarrow> rec_type r = ''region'' \<Longrightarrow>
             annotate hs r = annotate hs' r"
  shows "loop P S argv hs st ls = loop P S argv hs' st ls"
  using assms
proof (induction ls arbitrary: st)
  case Nil
  show ?case by simp
next
  case (Cons l ls)
  have b: "body P S argv hs st l = body P S argv hs' st l"
    by (rule body_cong_hits) (rule Cons.prems, simp_all)
  have "loop P S argv hs st' ls = loop P S argv hs' st' ls" for st'
    by (rule Cons.IH) (rule Cons.prems, simp_all)
  with b show ?case by (simp split: prod.splits option.splits)
qed

lemma mainLoop_drop_record:
  assumes "\<And>l r. l \<in> set summaryFile \<Longrightarrow> P l = Some r \<Longrightarrow> rec_type r = ''region'' \<Longrightarrow>
             rec_seqid r \<noteq> rec_seqid x"
  shows "mainLoop P S argv (xs @ x # ys) summaryFile = mainLoop P S argv (xs @ ys) summaryFile"
proof (cases "rec_type x \<in> set knownModificationEvents")
  case False
  then have "hits (xs @ x # ys) = hits (xs @ ys)" by (simp add: hits_append hits_Cons)
  then show ?thesis by (simp add: mainLoop_def)
next
  case True
  then have h: "hits (xs @ x # ys) = hits xs @ hit_of x # hits ys" "hits (xs @ ys) = hits xs @ hits ys"
    by (simp_all add: hits_append hits_Cons)
  have "loop P S argv (hits xs @ hit_of x # hits ys) st summaryFile =
        loop P S argv (hits xs @ hits ys) st summaryFile" for st
  proof (rule loop_cong_hits)
    fix l r assume "l \<in> set summaryFile" "P l = Some r" "rec_type r = ''region''"
    then have "rec_seqid r \<noteq> rec_seqid x" by (rule assms)
    then have "\<not> overlaps r (hit_of x)" by (simp add: overlaps_def hit_of_def)
    then show "annotate (hits xs @ hit_of x # hits ys) r = annotate (hits xs @ hits ys) r"
      by (simp add: annotate_drop)
  qed
  then show ?thesis by (simp add: mainLoop_def h)
qed

lemma example_fromString_version: "example_fromString version_line = None"
  by (simp add: example_fromString_def version_line_def region_line_def gene_line_def nl_def tab_def)

lemma example_regions_chr1:
  "\<forall>l\<in>set [version_line, region_line]. \<forall>r'.
     example_fromString l = Some r' \<and> rec_type r' = ''region'' \<longrightarrow>
     rec_seqid r' \<noteq> rec_seqid other_sequence_record"
  by (simp add: example_fromString_version example_fromString_region region_record_def
        other_sequence_record_def)

text \<open>
  Claim C4. A loaded hit is selected for a region exactly when its sequence identifier is
  the region's and its position is in the closed interval from the region's start to its
  end; in particular a hit of that sequence at the start or at the end of a region (whose
  start is not after its end) is selected. A record of the modification file whose sequence
  identifier is that of no region of the summary changes nothing: the run with it is the
  run without it, output and result alike.
\<close>

theorem interval_selection:
  "(h \<in> set (intervalHits hs r) \<longleftrightarrow>
      h \<in> set hs \<and> seqid h = rec_seqid r \<and> rec_start r \<le> pos h \<and> pos h \<le> rec_end r) \<and>
   (h \<in> set hs \<and> seqid h = rec_seqid r \<and> rec_start r \<le> rec_end r \<and>
      (pos h = rec_start r \<or> pos h = rec_end r) \<longrightarrow> h \<in> set (intervalHits hs r)) \<and>
   ((\<forall>l\<in>set summaryFile. \<forall>r'. P l = Some r' \<and> rec_type r' = ''region'' \<longrightarrow>
        rec_seqid r' \<noteq> rec_seqid x) \<longrightarrow>
      mainLoop P S argv (xs @ x # ys) summaryFile = mainLoop P S argv (xs @ ys) summaryFile)"
proof (intro conjI impI)
  show "h \<in> set (intervalHits hs r) \<longleftrightarrow>
      h \<in> set hs \<and> seqid h = rec_seqid r \<and> rec_start r \<le> pos h \<and> pos h \<le> rec_end r"
    by (auto simp: intervalHits_def)
  show "h \<in> set (intervalHits hs r)"
    if "h \<in> set hs \<and> seqid h = rec_seqid r \<and> rec_start r \<le> rec_end r \<and>
      (pos h = rec_start r \<or> pos h = rec_end r)"
    using that by (auto simp: intervalHits_def)
  show "mainLoop P S argv (xs @ x # ys) summaryFile = mainLoop P S argv (xs @ ys) summaryFile"
    if "\<forall>l\<in>set summaryFile. \<forall>r'. P l = Some r' \<and> rec_type r' = ''region'' \<longrightarrow>
          rec_seqid r' \<noteq> rec_seqid x"
    by (rule mainLoop_drop_record) (use that in blast)
qed

theorem interval_selection_witness:
  "boundary_hit \<in> set (intervalHits [boundary_hit] region_record) \<and>
   pos boundary_hit = rec_start region_record \<and>
   mainLoop example_fromString example_str [''summarizeModifications.py'']
     ([m6A_record] @ other_sequence_record # []) [version_line, region_line] =
   mainLoop example_fromString example_str [''summarizeModifications.py'']
     ([m6A_record] @ []) [version_line, region_line]"
proof -
  note T = interval_selection
    [where h = boundary_hit and hs = "[boundary_hit]" and r = region_record
       and summaryFile = "[version_line, region_line]" and P = example_fromString
       and x = other_sequence_record and S = example_str
       and argv = "[''summarizeModifications.py'']" and xs = "[m6A_record]" and ys = "[]"]
  have p: "boundary_hit \<in> set [boundary_hit] \<and> seqid boundary_hit = rec_seqid region_record \<and>
      rec_start region_record \<le> rec_end region_record \<and>
      (pos boundary_hit = rec_start region_record \<or> pos boundary_hit = rec_end region_record)"
    by (simp add: boundary_hit_def region_record_def)
  from T have "boundary_hit \<in> set [boundary_hit] \<and> seqid boundary_hit = rec_seqid region_record \<and>
      rec_start region_record \<le> rec_end region_record \<and>
      (pos boundary_hit = rec_start region_record \<or> pos boundary_hit = rec_end region_record)
      \<longrightarrow> boundary_hit \<in> set (intervalHits [boundary_hit] region_record)"
    by (elim conjE)
  with p have a: "boundary_hit \<in> set (intervalHits [boundary_hit] region_record)"
    by (rule_tac mp)
  from T have "(\<forall>l\<in>set [version_line, region_line]. \<forall>r'.
     example_fromString l = Some r' \<and> rec_type r' = ''region'' \<longrightarrow>
     rec_seqid r' \<noteq> rec_seqid other_sequence_record) \<longrightarrow>
   mainLoop example_fromString example_str [''summarizeModifications.py'']
     ([m6A_record] @ other_sequence_record # []) [version_line, region_line] =
   mainLoop example_fromString example_str [''summarizeModifications.py'']
     ([m6A_record] @ []) [version_line, region_line]"
    by (elim conjE)
  with example_regions_chr1 have b:
   "mainLoop example_fromString example_str [''summarizeModifications.py'']
     ([m6A_record] @ other_sequence_record # []) [version_line, region_line] =
   mainLoop example_fromString example_str [''summarizeModifications.py'']
     ([m6A_record] @ []) [version_line, region_line]"
    by (rule_tac mp)
  have c: "pos boundary_hit = rec_start region_record"
    by (simp add: boundary_hit_def region_record_def)
  from a c b show ?thesis by (intro conjI)
qed

section \<open>Strands\<close>

text \<open>
  The counts of one strand add up to the number of overlapping hits of that strand and of
  a known type; with every strand \<^verbatim>\<open>+\<close> or \<^verbatim>\<open>-\<close> the two strands share out the overlapping
  hits.
\<close>

lemma sum_indicator:
  "distinct ts \<Longrightarrow>
   (\<Sum>t\<leftarrow>ts. if Q \<and> x = t then 1 else 0 :: nat) = (if Q \<and> x \<in> set ts then 1 else 0)"
  by (induction ts) auto

lemma distinct_known: "distinct knownModificationEvents"
  by (simp add: knownModificationEvents_def)

lemma sum_strand_count:
  "(\<Sum>t\<leftarrow>knownModificationEvents. strand_count hs r s t) =
     length (filter (\<lambda>h. overlaps r h \<and> strand h = s \<and> type h \<in> set knownModificationEvents) hs)"
proof (induction hs)
  case Nil
  show ?case by (simp add: strand_count_def)
next
  case (Cons h hs)
  have "(\<Sum>t\<leftarrow>knownModificationEvents. strand_count (h # hs) r s t) =
        (\<Sum>t\<leftarrow>knownModificationEvents. strand_count hs r s t) +
        (\<Sum>t\<leftarrow>knownModificationEvents. if (overlaps r h \<and> strand h = s) \<and> type h = t then 1 else 0)"
    by (simp only: strand_count_Cons sum_list_addf conj_assoc)
  also have "\<dots> = length (filter (\<lambda>h. overlaps r h \<and> strand h = s \<and> type h \<in> set knownModificationEvents) hs) +
        (if (overlaps r h \<and> strand h = s) \<and> type h \<in> set knownModificationEvents then 1 else 0)"
    by (simp only: Cons.IH sum_indicator [OF distinct_known])
  also have "\<dots> = length (filter (\<lambda>h. overlaps r h \<and> strand h = s \<and> type h \<in> set knownModificationEvents) (h # hs))"
    by simp
  finally show ?case .
qed

lemma strand_partition_length:
  assumes "\<forall>h\<in>set hs. (strand h = ''+'' \<or> strand h = ''-'') \<and> type h \<in> set knownModificationEvents"
  shows "length (filter (\<lambda>h. overlaps r h \<and> strand h = ''+'' \<and> type h \<in> set knownModificationEvents) hs) +
         length (filter (\<lambda>h. overlaps r h \<and> strand h = ''-'' \<and> type h \<in> set knownModificationEvents) hs) =
         length (filter (overlaps r) hs)"
  using assms by (induction hs) auto

lemma hits_types_known: "\<forall>h\<in>set (hits modReader). type h \<in> set knownModificationEvents"
  by (auto simp: hits_def hit_of_def)

lemma token_sum:
  "sum_list (map nat_of_str (count_tokens hs r ''+'' @ count_tokens hs r ''-'')) =
     (\<Sum>t\<leftarrow>knownModificationEvents. strand_count hs r ''+'' t) +
     (\<Sum>t\<leftarrow>knownModificationEvents. strand_count hs r ''-'' t)"
  by (simp only: map_append sum_list_append count_tokens_values)

lemma token_sum_loaded:
  assumes "\<forall>h\<in>set (hits modReader). strand h = ''+'' \<or> strand h = ''-''"
  shows "sum_list (map nat_of_str (count_tokens (hits modReader) r ''+'' @
                                    count_tokens (hits modReader) r ''-'')) =
         length (intervalHits (hits modReader) r)"
proof -
  have "\<forall>h\<in>set (hits modReader). (strand h = ''+'' \<or> strand h = ''-'') \<and>
          type h \<in> set knownModificationEvents"
    using assms hits_types_known by blast
  from strand_partition_length [OF this, of r] show ?thesis
    by (simp only: token_sum sum_strand_count intervalHits_overlaps)
qed

lemma example_loaded_strands:
  "\<forall>h\<in>set (hits [m6A_record]). strand h = ''+'' \<or> strand h = ''-''"
  by (simp add: hits_def hit_of_def m6A_record_def knownModificationEvents_def)

lemma example_interval_length: "length (intervalHits (hits [m6A_record]) region_record) = 1"
  by (simp add: intervalHits_def hits_def hit_of_def m6A_record_def region_record_def
        knownModificationEvents_def)

lemma unstranded_overlaps: "overlaps region_record unstranded_hit"
  by (simp add: overlaps_def region_record_def unstranded_hit_def)

lemma unstranded_strand: "strand unstranded_hit \<noteq> ''+'' \<and> strand unstranded_hit \<noteq> ''-''"
  by (simp add: unstranded_hit_def)

text \<open>
  Claim C10. The tokens of \<^verbatim>\<open>modsfwd\<close> denote the counts for the strand \<^verbatim>\<open>+\<close> and those of
  \<^verbatim>\<open>modsrev\<close> the counts for the strand \<^verbatim>\<open>-\<close>, where adding a hit raises the count of a
  strand and type by one exactly when the hit overlaps the region and has exactly that
  strand and type. If every loaded hit has the strand \<^verbatim>\<open>+\<close> or \<^verbatim>\<open>-\<close>, the eight tokens of a
  region add up to the number of loaded hits that overlap it. A hit with any other strand
  symbol changes neither attribute, whether it overlaps or not.
\<close>

theorem strand_split_counts:
  "(\<exists>r'. annotate hs r = Inr r' \<and>
          getattr r' ''modsfwd'' = Some (join '','' (count_tokens hs r ''+'')) \<and>
          getattr r' ''modsrev'' = Some (join '','' (count_tokens hs r ''-''))) \<and>
   map nat_of_str (count_tokens hs r s) = map (strand_count hs r s) knownModificationEvents \<and>
   intervalHits hs r = filter (overlaps r) hs \<and>
   strand_count (h # hs) r s t =
     strand_count hs r s t + (if overlaps r h \<and> strand h = s \<and> type h = t then 1 else 0) \<and>
   ((\<forall>h\<in>set (hits modReader). strand h = ''+'' \<or> strand h = ''-'') \<longrightarrow>
      sum_list (map nat_of_str (count_tokens (hits modReader) r ''+'' @
                                 count_tokens (hits modReader) r ''-'')) =
      length (intervalHits (hits modReader) r)) \<and>
   (strand h \<noteq> ''+'' \<and> strand h \<noteq> ''-'' \<longrightarrow>
      annotate (hs1 @ h # hs2) r = annotate (hs1 @ hs2) r)"
proof (intro conjI impI)
  let ?r' = "setattr (setattr r ''modsfwd'' (join '','' (count_tokens hs r ''+'')))
              ''modsrev'' (join '','' (count_tokens hs r ''-''))"
  have "annotate hs r = Inr ?r'" by (rule annotate_tokens)
  moreover have "getattr ?r' ''modsfwd'' = Some (join '','' (count_tokens hs r ''+''))"
    by (rule getattr_annotated)
  moreover have "getattr ?r' ''modsrev'' = Some (join '','' (count_tokens hs r ''-''))"
    by (rule getattr_annotated)
  ultimately show "\<exists>r'. annotate hs r = Inr r' \<and>
          getattr r' ''modsfwd'' = Some (join '','' (count_tokens hs r ''+'')) \<and>
          getattr r' ''modsrev'' = Some (join '','' (count_tokens hs r ''-''))"
    by (intro exI [of _ ?r'] conjI)
  show "map nat_of_str (count_tokens hs r s) = map (strand_count hs r s) knownModificationEvents"
    by (rule count_tokens_values)
  show "intervalHits hs r = filter (overlaps r) hs" by (rule intervalHits_overlaps)
  show "strand_count (h # hs) r s t =
     strand_count hs r s t + (if overlaps r h \<and> strand h = s \<and> type h = t then 1 else 0)"
    by (rule strand_count_Cons)
  show "sum_list (map nat_of_str (count_tokens (hits modReader) r ''+'' @
                                 count_tokens (hits modReader) r ''-'')) =
      length (intervalHits (hits modReader) r)"
    if "\<forall>h\<in>set (hits modReader). strand h = ''+'' \<or> strand h = ''-''"
    using that by (rule token_sum_loaded)
  show "annotate (hs1 @ h # hs2) r = annotate (hs1 @ hs2) r"
    if "strand h \<noteq> ''+'' \<and> strand h \<noteq> ''-''"
    by (rule annotate_drop) (use that in blast)
qed

theorem strand_split_counts_witness:
  "sum_list (map nat_of_str (count_tokens (hits [m6A_record]) region_record ''+'' @
                              count_tokens (hits [m6A_record]) region_record ''-'')) = 1 \<and>
   length (intervalHits (hits [m6A_record]) region_record) = 1 \<and>
   overlaps region_record unstranded_hit \<and>
   annotate (hits [m6A_record] @ unstranded_hit # []) region_record =
     annotate (hits [m6A_record] @ []) region_record"
proof -
  note T = strand_split_counts
    [where hs = "hits [m6A_record]" and r = region_record and s = "''+''" and h = unstranded_hit
       and t = "''m5C''" and modReader = "[m6A_record]" and ?hs1.0 = "hits [m6A_record]"
       and ?hs2.0 = "[]"]
  from T have "(\<forall>h\<in>set (hits [m6A_record]). strand h = ''+'' \<or> strand h = ''-'') \<longrightarrow>
      sum_list (map nat_of_str (count_tokens (hits [m6A_record]) region_record ''+'' @
                                 count_tokens (hits [m6A_record]) region_record ''-'')) =
      length (intervalHits (hits [m6A_record]) region_record)"
    by (elim conjE)
  with example_loaded_strands
  have "sum_list (map nat_of_str (count_tokens (hits [m6A_record]) region_record ''+'' @
                                 count_tokens (hits [m6A_record]) region_record ''-'')) =
      length (intervalHits (hits [m6A_record]) region_record)"
    by (rule_tac mp)
  then have a: "sum_list (map nat_of_str (count_tokens (hits [m6A_record]) region_record ''+'' @
                              count_tokens (hits [m6A_record]) region_record ''-'')) = 1"
    by (simp only: example_interval_length)
  from T have "strand unstranded_hit \<noteq> ''+'' \<and> strand unstranded_hit \<noteq> ''-'' \<longrightarrow>
      annotate (hits [m6A_record] @ unstranded_hit # []) region_record =
      annotate (hits [m6A_record] @ []) region_record"
    by (elim conjE)
  with unstranded_strand
  have b: "annotate (hits [m6A_record] @ unstranded_hit # []) region_record =
      annotate (hits [m6A_record] @ []) region_record"
    by (rule_tac mp)
  from a example_interval_length unstranded_overlaps b show ?thesis by (intro conjI)
qed

section \<open>The end-to-end example\<close>

lemma end_to_end_tokens:
  assumes "rec_type x = ''m6A''" and "rec_seqid x = ''chr1''" and "rec_strand x = ''+''"
    and "rec_start x = 100"
    and "rec_seqid r = ''chr1''" and "rec_start r = 50" and "rec_end r = 150"
  shows "join '','' (count_tokens (hits [x]) r ''+'') = ''0,1,0,0''"
    and "join '','' (count_tokens (hits [x]) r ''-'') = ''0,0,0,0''"
  using assms
  by (simp_all add: count_tokens_def strand_count_def overlaps_def hits_def hit_of_def
        knownModificationEvents_def str_nat_small)

lemma m6A_record_fields:
  "rec_type m6A_record = ''m6A''" "rec_seqid m6A_record = ''chr1''"
  "rec_strand m6A_record = ''+''" "rec_start m6A_record = 100"
  by (simp_all add: m6A_record_def)

lemma region_record_fields:
  "rec_seqid region_record = ''chr1''" "rec_start region_record = 50"
  "rec_end region_record = 150"
  by (simp_all add: region_record_def)

text \<open>
  Claim C7. For a modification file of one \<^verbatim>\<open>m6A\<close> record on \<^verbatim>\<open>chr1\<close>, strand \<^verbatim>\<open>+\<close>,
  position 100, and an alignment summary of metadata lines followed by one feature line
  that parses to a \<^verbatim>\<open>region\<close> record for \<^verbatim>\<open>chr1\<close> from 50 to 150, the run returns, and the
  output is the trimmed metadata lines, the injected headers and one record whose
  \<^verbatim>\<open>modsfwd\<close> is \<^verbatim>\<open>0,1,0,0\<close> and whose \<^verbatim>\<open>modsrev\<close> is \<^verbatim>\<open>0,0,0,0\<close>.
\<close>

theorem end_to_end_example:
  assumes "rec_type x = ''m6A''" and "rec_seqid x = ''chr1''" and "rec_strand x = ''+''"
    and "rec_start x = 100"
    and "\<forall>l\<in>set ms. l \<noteq> [] \<and> hd l = CHR ''#''"
    and "line \<noteq> []" and "hd line \<noteq> CHR ''#''" and "P line = Some r"
    and "rec_type r = ''region''" and "rec_seqid r = ''chr1''"
    and "rec_start r = 50" and "rec_end r = 150"
  shows "\<exists>r'. summaryWriter (fst (mainLoop P S argv [x] (ms @ [line]))) =
                map strip ms @ map format_header (headers argv) @ [S r'] \<and>
              snd (mainLoop P S argv [x] (ms @ [line])) = None \<and>
              getattr r' ''modsfwd'' = Some ''0,1,0,0'' \<and>
              getattr r' ''modsrev'' = Some ''0,0,0,0''"
proof -
  let ?hs = "hits [x]"
  let ?st0 = "\<lparr>seqMap = Map.empty, inHeader = True, summaryWriter = []\<rparr>"
  let ?r' = "setattr (setattr r ''modsfwd'' (join '','' (count_tokens ?hs r ''+'')))
              ''modsrev'' (join '','' (count_tokens ?hs r ''-''))"
  obtain m where pre: "loop P S argv ?hs ?st0 ms =
      (?st0\<lparr>seqMap := m, summaryWriter := summaryWriter ?st0 @ map strip ms\<rparr>, None)"
    using loop_meta [OF assms(5), of P S argv ?hs ?st0] by blast
  define st1 where "st1 = ?st0\<lparr>seqMap := m, summaryWriter := summaryWriter ?st0 @ map strip ms\<rparr>"
  have b: "body P S argv ?hs st1 line =
     ((write_headers argv st1)\<lparr>summaryWriter :=
         summaryWriter (write_headers argv st1) @ [S ?r']\<rparr>, None)"
    using assms(6,7,8,9) by (rule body_region)
  have "mainLoop P S argv [x] (ms @ [line]) =
     ((write_headers argv st1)\<lparr>summaryWriter :=
         summaryWriter (write_headers argv st1) @ [S ?r']\<rparr>, None)"
    using pre b by (simp add: mainLoop_def loop_append st1_def)
  then have out: "summaryWriter (fst (mainLoop P S argv [x] (ms @ [line]))) =
                map strip ms @ map format_header (headers argv) @ [S ?r']"
    and res: "snd (mainLoop P S argv [x] (ms @ [line])) = None"
    by (simp_all add: st1_def write_headers_def)
  have f: "getattr ?r' ''modsfwd'' = Some ''0,1,0,0''"
    using end_to_end_tokens(1) [OF assms(1,2,3,4) assms(10,11,12)]
    by (simp only: getattr_annotated)
  have v: "getattr ?r' ''modsrev'' = Some ''0,0,0,0''"
    using end_to_end_tokens(2) [OF assms(1,2,3,4) assms(10,11,12)]
    by (simp only: getattr_annotated)
  show ?thesis
    by (rule exI [of _ ?r']) (intro conjI out res f v)
qed

theorem end_to_end_example_witness:
  "\<exists>r'. summaryWriter (fst (mainLoop example_fromString example_str
                 [''summarizeModifications.py''] [m6A_record] ([version_line] @ [region_line]))) =
          [''##gff-version 3''] @ map format_header (headers [''summarizeModifications.py'']) @
          [example_str r'] \<and>
        snd (mainLoop example_fromString example_str
                 [''summarizeModifications.py''] [m6A_record] ([version_line] @ [region_line])) = None \<and>
        getattr r' ''modsfwd'' = Some ''0,1,0,0'' \<and>
        getattr r' ''modsrev'' = Some ''0,0,0,0''"
proof -
  have v: "\<forall>l\<in>set [version_line]. l \<noteq> [] \<and> hd l = CHR ''#''"
    using version_line_hd by simp
  from end_to_end_example
         [where x = m6A_record and ms = "[version_line]" and line = region_line
            and P = example_fromString and r = region_record and S = example_str
            and argv = "[''summarizeModifications.py'']",
          OF m6A_record_fields v example_lines_hd(2) [THEN conjunct1]
             example_lines_hd(2) [THEN conjunct2] example_fromString_region
             region_is_region region_record_fields]
  show ?thesis by (simp only: list.map strip_version_line)
qed

section \<open>The count aggregator on loaded hits\<close>

text \<open>
  \<^verbatim>\<open>countModificationTypes\<close> is called twice, each time on hits selected from the loaded
  ones, and every loaded hit has a known type.
\<close>

lemma loaded_types_known:
  assumes "set mods \<subseteq> set (hits modReader)"
  shows "\<forall>h\<in>set mods. type h \<in> set knownModificationEvents"
  using assms hits_types_known [of modReader] by blast

lemma call_site_loaded:
  "set (filter (\<lambda>h. strand h = s) (intervalHits (hits modReader) r)) \<subseteq> set (hits modReader)"
  by (auto simp: intervalHits_def)

lemma example_loaded_two:
  "hits [m6A_record, unknown_record, other_sequence_record] =
     [\<lparr>pos = 100, strand = ''+'', seqid = ''chr1'', type = ''m6A''\<rparr>,
      \<lparr>pos = 70, strand = ''-'', seqid = ''chr2'', type = ''m4C''\<rparr>]"
  by (simp add: hits_def hit_of_def m6A_record_def unknown_record_def other_sequence_record_def
        knownModificationEvents_def)

text \<open>
  Claim C5. For every list of hits that the loader produced (any selection of the loaded
  hits, in any order), \<^verbatim>\<open>countModificationTypes\<close> returns a mapping whose key set is exactly
  the four known event types; each known type is mapped to the number of hits of that type,
  which is zero for a type that does not occur; and every permutation of the list gives the
  identical mapping. In particular the key set is the four known types at both calls in
  \<^verbatim>\<open>_mainLoop\<close>, for every modification file, region and strand symbol.
\<close>

theorem countModificationTypes_keys_and_order:
  "(set mods \<subseteq> set (hits modReader) \<longrightarrow>
      dom (countModificationTypes mods) = {''modified_base'', ''m6A'', ''m4C'', ''m5C''} \<and>
      (\<forall>t\<in>{''modified_base'', ''m6A'', ''m4C'', ''m5C''}.
         countModificationTypes mods t = Some (length (filter (\<lambda>h. type h = t) mods)) \<and>
         (t \<notin> type ` set mods \<longrightarrow> countModificationTypes mods t = Some 0)) \<and>
      (\<forall>mods'. mset mods' = mset mods \<longrightarrow>
         countModificationTypes mods' = countModificationTypes mods)) \<and>
   dom (countModificationTypes (filter (\<lambda>h. strand h = s) (intervalHits (hits modReader) r))) =
     {''modified_base'', ''m6A'', ''m4C'', ''m5C''}"
proof (intro conjI impI ballI allI)
  assume "set mods \<subseteq> set (hits modReader)"
  then have "\<forall>h\<in>set mods. type h \<in> set knownModificationEvents"
    by (rule loaded_types_known)
  then show "dom (countModificationTypes mods) = {''modified_base'', ''m6A'', ''m4C'', ''m5C''}"
    by (simp only: countModificationTypes_dom known_set)
next
  fix t :: string
  assume "t \<in> {''modified_base'', ''m6A'', ''m4C'', ''m5C''}"
  then have tk: "t \<in> set knownModificationEvents" by (simp only: known_set)
  then show "countModificationTypes mods t = Some (length (filter (\<lambda>h. type h = t) mods))"
    by (rule countModificationTypes_known)
  assume "t \<notin> type ` set mods"
  then have "filter (\<lambda>h. type h = t) mods = []" by (rule filter_type_absent)
  then show "countModificationTypes mods t = Some 0"
    by (simp add: countModificationTypes_known [OF tk])
next
  fix mods' assume "mset mods' = mset mods"
  then show "countModificationTypes mods' = countModificationTypes mods"
    by (rule countModificationTypes_mset)
next
  have "\<forall>h\<in>set (filter (\<lambda>h. strand h = s) (intervalHits (hits modReader) r)).
          type h \<in> set knownModificationEvents"
    using call_site_loaded by (rule loaded_types_known)
  then show "dom (countModificationTypes
                    (filter (\<lambda>h. strand h = s) (intervalHits (hits modReader) r))) =
     {''modified_base'', ''m6A'', ''m4C'', ''m5C''}"
    by (simp only: countModificationTypes_dom known_set)
qed

theorem countModificationTypes_keys_and_order_witness:
  "dom (countModificationTypes (hits [m6A_record, unknown_record, other_sequence_record])) =
     {''modified_base'', ''m6A'', ''m4C'', ''m5C''} \<and>
   countModificationTypes (hits [m6A_record, unknown_record, other_sequence_record]) ''m6A'' = Some 1 \<and>
   countModificationTypes (hits [m6A_record, unknown_record, other_sequence_record]) ''m5C'' = Some 0 \<and>
   countModificationTypes (rev (hits [m6A_record, unknown_record, other_sequence_record])) =
     countModificationTypes (hits [m6A_record, unknown_record, other_sequence_record])"
proof -
  let ?mr = "[m6A_record, unknown_record, other_sequence_record]"
  note T = countModificationTypes_keys_and_order
    [where mods = "hits ?mr" and modReader = ?mr and s = "''+''" and r = region_record]
  have sub: "set (hits ?mr) \<subseteq> set (hits ?mr)" by (rule subset_refl)
  from T have "set (hits ?mr) \<subseteq> set (hits ?mr) \<longrightarrow>
      dom (countModificationTypes (hits ?mr)) = {''modified_base'', ''m6A'', ''m4C'', ''m5C''} \<and>
      (\<forall>t\<in>{''modified_base'', ''m6A'', ''m4C'', ''m5C''}.
         countModificationTypes (hits ?mr) t =
           Some (length (filter (\<lambda>h. type h = t) (hits ?mr))) \<and>
         (t \<notin> type ` set (hits ?mr) \<longrightarrow> countModificationTypes (hits ?mr) t = Some 0)) \<and>
      (\<forall>mods'. mset mods' = mset (hits ?mr) \<longrightarrow>
         countModificationTypes mods' = countModificationTypes (hits ?mr))"
    by (rule conjunct1)
  with sub have
    c1: "dom (countModificationTypes (hits ?mr)) = {''modified_base'', ''m6A'', ''m4C'', ''m5C''}" and
    vals: "\<forall>t\<in>{''modified_base'', ''m6A'', ''m4C'', ''m5C''}.
         countModificationTypes (hits ?mr) t =
           Some (length (filter (\<lambda>h. type h = t) (hits ?mr))) \<and>
         (t \<notin> type ` set (hits ?mr) \<longrightarrow> countModificationTypes (hits ?mr) t = Some 0)" and
    perm: "\<forall>mods'. mset mods' = mset (hits ?mr) \<longrightarrow>
         countModificationTypes mods' = countModificationTypes (hits ?mr)"
    by blast+
  have "''m6A'' \<in> {''modified_base'', ''m6A'', ''m4C'', ''m5C''}" by simp
  with vals have "countModificationTypes (hits ?mr) ''m6A'' =
           Some (length (filter (\<lambda>h. type h = ''m6A'') (hits ?mr)))"
    by (rule_tac conjunct1) (erule (1) bspec)
  then have c2: "countModificationTypes (hits ?mr) ''m6A'' = Some 1"
    by (simp add: example_loaded_two)
  have m5: "''m5C'' \<in> {''modified_base'', ''m6A'', ''m4C'', ''m5C''}" by simp
  have "''m5C'' \<notin> type ` set (hits ?mr)" by (simp add: example_loaded_two)
  moreover from vals m5 have "''m5C'' \<notin> type ` set (hits ?mr) \<longrightarrow>
       countModificationTypes (hits ?mr) ''m5C'' = Some 0"
    by (rule_tac conjunct2) (erule (1) bspec)
  ultimately have c3: "countModificationTypes (hits ?mr) ''m5C'' = Some 0" by (rule_tac mp)
  have "mset (rev (hits ?mr)) = mset (hits ?mr)" by simp
  with perm have c4: "countModificationTypes (rev (hits ?mr)) = countModificationTypes (hits ?mr)"
    by (rule_tac mp) (erule spec)
  from c1 c2 c3 c4 show ?thesis by (intro conjI)
qed

end
